theory Spec2Isabelle
  imports Main "HOL-Library.Multiset"
begin

section \<open>Python strings\<close>

text \<open>
  Python \<open>str\<close> values are modelled as \<open>string\<close>. The helpers below are the string
  operations that \<open>request_helper.py\<close> uses: \<open>str(int)\<close> and the f-string \<open>{i}\<close>,
  \<open>s.endswith(t)\<close>, \<open>t in s\<close>, \<open>s.rfind(c)\<close>, \<open>os.path.splitext\<close> and
  \<open>os.path.basename\<close> (both in their posixpath form).
\<close>

definition digit_char :: "nat \<Rightarrow> char" where
  "digit_char d = char_of (48 + d)"

fun str_nat :: "nat \<Rightarrow> string" where
  "str_nat n = (if n < 10 then [digit_char n] else str_nat (n div 10) @ [digit_char (n mod 10)])"

declare str_nat.simps [simp del]

definition str_int :: "int \<Rightarrow> string" where
  "str_int i = (if i < 0 then CHR ''-'' # str_nat (nat (- i)) else str_nat (nat i))"

definition endswith :: "string \<Rightarrow> string \<Rightarrow> bool" where
  "endswith s t = (length t \<le> length s \<and> drop (length s - length t) s = t)"

definition startswith :: "string \<Rightarrow> string \<Rightarrow> bool" where
  "startswith s t = (take (length t) s = t)"

fun contains :: "string \<Rightarrow> string \<Rightarrow> bool" where
  "contains t [] = (t = [])"
| "contains t (c # s) = (startswith (c # s) t \<or> contains t s)"

text \<open>\<open>s.rfind(c)\<close>: the highest index of \<open>c\<close> in \<open>s\<close>, or \<open>-1\<close>.\<close>

fun rfind :: "string \<Rightarrow> char \<Rightarrow> int" where
  "rfind [] c = -1"
| "rfind (x # s) c = (let r = rfind s c in if r \<ge> 0 then r + 1 else if x = c then 0 else -1)"

text \<open>
  The \<open>while\<close> loop of \<open>genericpath._splitext\<close>: scanning from \<open>filenameIndex\<close> up to
  \<open>dotIndex\<close>, is there a character that is not a dot?
\<close>

function non_dot_before :: "string \<Rightarrow> nat \<Rightarrow> nat \<Rightarrow> bool" where
  "non_dot_before p filenameIndex dotIndex =
     (if filenameIndex < dotIndex
      then (if p ! filenameIndex \<noteq> CHR ''.'' then True
            else non_dot_before p (filenameIndex + 1) dotIndex)
      else False)"
  by pat_completeness auto
termination
  by (relation "measure (\<lambda>(p, f, d). d - f)") auto

declare non_dot_before.simps [simp del]

definition splitext :: "string \<Rightarrow> string \<times> string" where
  "splitext p =
     (let sepIndex = rfind p CHR ''/'';
          dotIndex = rfind p CHR ''.''
      in if dotIndex > sepIndex \<and> non_dot_before p (nat (sepIndex + 1)) (nat dotIndex)
         then (take (nat dotIndex) p, drop (nat dotIndex) p)
         else (p, []))"

definition basename :: "string \<Rightarrow> string" where
  "basename p = drop (nat (rfind p CHR ''/'' + 1)) p"

text \<open>\<open>s.strip("/")\<close> and \<open>posixpath.join(a, b)\<close> for a relative \<open>b\<close>.\<close>

definition strip_slash :: "string \<Rightarrow> string" where
  "strip_slash s =
     rev (dropWhile (\<lambda>c. c = CHR ''/'') (rev (dropWhile (\<lambda>c. c = CHR ''/'') s)))"

definition path_join :: "string \<Rightarrow> string \<Rightarrow> string" where
  "path_join a b = (if a = [] \<or> endswith a ''/'' then a @ b else a @ ''/'' @ b)"

text \<open>Python's \<open>a or b\<close> on strings.\<close>

definition str_or :: "string \<Rightarrow> string \<Rightarrow> string" where
  "str_or a b = (if a \<noteq> [] then a else b)"

section \<open>The collaborators outside the module\<close>

text \<open>
  \<open>MediaType\<close> is declared in \<open>isisdl.backend.downloads\<close>; the source uses its three
  members \<open>document\<close>, \<open>extern\<close> and \<open>video\<close>.
\<close>

datatype MediaType = document | extern | video

text \<open>
  What the source reads of a \<open>requests\<close> response: the headers (\<open>k in con.headers\<close> is
  \<open>headers con k \<noteq> None\<close>) and the body text. A call of \<open>session.get_\<close> raises, returns
  \<open>None\<close> or returns a response.
\<close>

record response =
  headers :: "string \<rightharpoonup> string"
  text_body :: string

datatype get_result = GetRaises | GetNone | GetResponse response

text \<open>
  The functions that \<open>request_helper.py\<close> imports and that are not part of it are
  parameters of the model, collected in one record: the session (\<open>session.get_\<close>, as a
  function of the URL), the helpers of \<open>isisdl.backend.utils\<close>, \<open>MediaType.dir_name\<close>,
  the clock, \<open>email.utils.parsedate_to_datetime\<close> followed by \<open>.timestamp()\<close> and
  \<open>int\<close> on a string (\<open>None\<close> where they raise), and
  \<open>re.findall\<close> of the \<open>filename=\<close> pattern over \<open>str(con.headers)\<close>.
\<close>

record env =
  session_get :: "string \<Rightarrow> get_result"
  parse_google_drive_url :: "string \<Rightarrow> string option"
  get_url_from_gdrive_confirmation :: "string \<Rightarrow> string option"
  sanitize_name :: "string \<Rightarrow> string"
  path :: "string list \<Rightarrow> string"
  dir_name :: "MediaType \<Rightarrow> string"
  parsedate_to_datetime :: "string \<Rightarrow> int option"
  now :: int
  py_int :: "string \<Rightarrow> int option"
  findall_filename :: "(string \<rightharpoonup> string) \<Rightarrow> string list"

text \<open>
  The part of the configuration that the module reads. \<open>None\<close> is Python's \<open>None\<close>
  (the option is not configured).
\<close>

record config =
  whitelist :: "int set option"
  blacklist :: "int set option"
  renamed_courses :: "(int \<rightharpoonup> string) option"
  make_subdirs :: bool

datatype py_error = KeyError | ValueError

section \<open>Courses\<close>

text \<open>
  The dataclass \<open>Course\<close>. The field \<open>_name\<close> of the source is \<open>short_name\<close> here
  (an Isabelle name cannot start with an underscore).
\<close>

record Course =
  old_name :: string
  short_name :: string
  name :: string
  course_id :: int

text \<open>The property \<open>Course.ok\<close>, with its four cases in the order of the source.\<close>

definition ok :: "config \<Rightarrow> Course \<Rightarrow> bool" where
  "ok cfg c =
     (if whitelist cfg = None \<and> blacklist cfg = None then True
      else if whitelist cfg = None \<and> blacklist cfg \<noteq> None
        then course_id c \<notin> the (blacklist cfg)
      else if whitelist cfg \<noteq> None \<and> blacklist cfg = None
        then course_id c \<in> the (whitelist cfg)
      else course_id c \<in> the (whitelist cfg) \<and> course_id c \<notin> the (blacklist cfg))"

text \<open>
  The values a \<open>Course\<close> can be compared with in \<open>Course.__eq__\<close>: the source
  distinguishes the object \<open>True\<close>, another \<open>Course\<close>, instances of \<open>str\<close> and \<open>int\<close>
  (\<open>False\<close> is an \<open>int\<close> in Python, and \<open>str(False)\<close> is \<open>'False'\<close>), and everything else.
\<close>

datatype py_value =
    PyBool bool
  | PyInt int
  | PyStr string
  | PyCourse Course
  | PyOther

definition py_str :: "py_value \<Rightarrow> string" where
  "py_str v = (case v of
       PyBool b \<Rightarrow> (if b then ''True'' else ''False'')
     | PyInt i \<Rightarrow> str_int i
     | PyStr s \<Rightarrow> s
     | _ \<Rightarrow> [])"

definition Course_eq :: "Course \<Rightarrow> py_value \<Rightarrow> bool" where
  "Course_eq self other =
     (case other of
        PyBool True \<Rightarrow> True
      | PyCourse c \<Rightarrow> course_id self = course_id c
      | PyBool False \<Rightarrow> str_int (course_id self) = py_str other
      | PyInt i \<Rightarrow> str_int (course_id self) = py_str other
      | PyStr s \<Rightarrow> str_int (course_id self) = py_str other
      | PyOther \<Rightarrow> False)"

definition Course_hash :: "Course \<Rightarrow> int" where
  "Course_hash self = course_id self"

definition Course_lt :: "Course \<Rightarrow> Course \<Rightarrow> bool" where
  "Course_lt self other = (course_id self < course_id other)"

text \<open>
  One entry of the answer of \<open>core_enrol_get_users_courses\<close>, with the three keys
  that \<open>Course.from_dict\<close> reads.
\<close>

record course_info =
  displayname :: string
  shortname :: string
  info_id :: int

text \<open>
  \<open>Course.from_dict\<close>. The call of \<open>make_directories\<close> only touches the file system
  and is left out.
\<close>

definition from_dict :: "env \<Rightarrow> config \<Rightarrow> course_info \<Rightarrow> Course" where
  "from_dict e cfg info =
     (let old = displayname info;
          sname = str_or (shortname info) (displayname info);
          i = info_id info;
          nm = (case renamed_courses cfg of
                  None \<Rightarrow> sname
                | Some m \<Rightarrow> str_or (case m i of None \<Rightarrow> [] | Some n \<Rightarrow> n) sname)
      in \<lparr>old_name = sanitize_name e old, short_name = sname, name = sanitize_name e nm,
          course_id = i\<rparr>)"

text \<open>\<open>Course.path\<close>: the arguments, prefixed with the course name, go to \<open>path\<close>.\<close>

definition Course_path :: "env \<Rightarrow> Course \<Rightarrow> string list \<Rightarrow> string" where
  "Course_path e self args = path e (name self # args)"

text \<open>
  The fields of \<open>RequestHelper\<close> that \<open>get_courses\<close> writes. The source's \<open>_courses\<close> is
  \<open>all_courses\<close> here.
\<close>

record RequestHelper =
  courses :: "Course list"
  all_courses :: "Course list"
  course_id_mapping :: "int \<rightharpoonup> Course"

definition get_courses_step ::
  "env \<Rightarrow> config \<Rightarrow> course_info \<Rightarrow> RequestHelper \<Rightarrow> RequestHelper" where
  "get_courses_step e cfg item h =
     (let course = from_dict e cfg item;
          h1 = h\<lparr>course_id_mapping := (course_id_mapping h)(course_id course \<mapsto> course)\<rparr>;
          h2 = h1\<lparr>all_courses := all_courses h1 @ [course]\<rparr>
      in if ok cfg course then h2\<lparr>courses := courses h2 @ [course]\<rparr> else h2)"

text \<open>
  \<open>RequestHelper.get_courses\<close>, given the list \<open>res\<close> that the REST call returned.
  \<open>sorted\<close> compares with \<open>Course.__lt__\<close>, that is by \<open>course_id\<close>, and is stable.
\<close>

definition get_courses ::
  "env \<Rightarrow> config \<Rightarrow> course_info list \<Rightarrow> RequestHelper \<Rightarrow> RequestHelper" where
  "get_courses e cfg res h =
     (let h0 = h\<lparr>courses := [], all_courses := []\<rparr>;
          h1 = fold (get_courses_step e cfg) res h0
      in h1\<lparr>all_courses := sort_key course_id (all_courses h1),
            courses := sort_key course_id (courses h1)\<rparr>)"

section \<open>Resource descriptors\<close>

text \<open>
  The dataclass \<open>PreMediaContainer\<close>. The field \<open>_name\<close> of the source is
  \<open>display_name\<close> here; \<open>course_id\<close> and \<open>size\<close> are \<open>owner_id\<close> and \<open>size_bytes\<close>
  (the first is a field of \<open>Course\<close> already, the second a constant of HOL). The field
  \<open>time\<close> is declared \<open>int\<close> and is an integer here.
\<close>

record PreMediaContainer =
  display_name :: string
  url :: string
  download_url :: string
  location :: string
  time :: int
  owner_id :: int
  media_type :: MediaType
  size_bytes :: int
  checksum :: "string option"

section \<open>The resource cache\<close>

text \<open>
  The state that resolution reads and writes: the two tables of the persisted cache,
  the URLs that \<open>session.get_\<close> was called with (in order), and the messages given to
  \<open>logger.message\<close>.
\<close>

record state =
  bad_urls :: "string set"
  pre_containers :: "string \<rightharpoonup> PreMediaContainer"
  requests :: "string list"
  messages :: "string list"

text \<open>
  Modelled from the spec: \<open>database_helper.get_bad_urls\<close> of \<open>isisdl.backend.utils\<close>,
  which is not part of the module; the contract is \<open>get_bad_urls() \<rightarrow> set<url>\<close>.
\<close>

definition get_bad_urls :: "state \<Rightarrow> string set" where
  "get_bad_urls s = bad_urls s"

text \<open>
  Modelled from the spec: \<open>database_helper.get_pre_container_by_url\<close>, with the contract
  \<open>get_pre_container_by_url(url) \<rightarrow> record|None\<close>; the cache is keyed by the source URL.
\<close>

definition get_pre_container_by_url :: "state \<Rightarrow> string \<Rightarrow> PreMediaContainer option" where
  "get_pre_container_by_url s u = pre_containers s u"

text \<open>
  Modelled from the spec: \<open>database_helper.add_pre_container\<close>, an idempotent upsert
  keyed by the source URL of the descriptor.
\<close>

definition add_pre_container :: "PreMediaContainer \<Rightarrow> state \<Rightarrow> state" where
  "add_pre_container c s = s\<lparr>pre_containers := (pre_containers s)(url c \<mapsto> c)\<rparr>"

text \<open>
  Modelled from the spec: \<open>database_helper.add_bad_url\<close>, idempotent; afterwards the
  URL is known bad.
\<close>

definition add_bad_url :: "string \<Rightarrow> state \<Rightarrow> state" where
  "add_bad_url u s = s\<lparr>bad_urls := insert u (bad_urls s)\<rparr>"

section \<open>Resolution of external links\<close>

text \<open>
  The regular expression \<open>isis_ignored\<close>, used with \<open>re.match\<close>: anything without a
  line break, then one of the alternatives, then a slash. A dot of the source pattern
  stands for any character but a line break; the only dots are in the two host names.
\<close>

fun match_here :: "string \<Rightarrow> string \<Rightarrow> bool" where
  "match_here [] s = True"
| "match_here (p # ps) [] = False"
| "match_here (p # ps) (c # s) =
     ((if p = CHR ''.'' then c \<noteq> CHR 0x0A else p = c) \<and> match_here ps s)"

definition isis_ignored_alternatives :: "string list" where
  "isis_ignored_alternatives =
     map (\<lambda>m. ''mod/'' @ m @ ''/'')
       [''forum'', ''choicegroup'', ''assign'', ''feedback'', ''choice'', ''quiz'', ''glossary'',
        ''questionnaire'', ''scorm'', ''etherpadlite'', ''lti'', ''h5pactivity'',
        ''page'', ''data'', ''ratingallocate'', ''book'']
     @ [''tu-berlin.zoom.us/'', ''arm.com/products/'']"

fun isis_ignored :: "string \<Rightarrow> bool" where
  "isis_ignored [] = False"
| "isis_ignored (c # s) =
     (list_ex (\<lambda>alt. match_here alt (c # s)) isis_ignored_alternatives
      \<or> (c \<noteq> CHR 0x0A \<and> isis_ignored s))"

definition known_bad_extern_urls :: "string set" where
  "known_bad_extern_urls = {
     ''https://www.sese.tu-berlin.de/kloes'',
     ''https://www.qemu.org/docs/master/system/index.html'',
     ''https://developer.arm.com/documentation/ihi0042/j/?lang=en'',
     ''http://infocenter.arm.com/help/topic/com.arm.doc.qrc0001m/QRC0001_UAL.pdf'',
     ''https://gcc.gnu.org/onlinedocs/gcc-10.2.0/gcc/'',
     ''https://sourceware.org/gdb/current/onlinedocs/gdb/'',
     ''https://elinux.org/BCM2835_datasheet_errata'',
     ''http://www.gnu.org/software/make/manual/make.html'',
     ''http://de.wikibooks.org/wiki/C-Programmierung'',
     ''http://openbook.galileocomputing.de/c_von_a_bis_z/'',
     ''https://www.qemu.org/'',
     ''https://sourceware.org/binutils/docs-2.35/'',
     ''https://developer.arm.com/documentation/ddi0406/latest''}"

text \<open>
  \<open>PreMediaContainer.from_dump\<close> returns \<open>False\<close>, \<open>True\<close> or the cached container.
\<close>

datatype dump_result = DumpFalse | DumpTrue | DumpContainer PreMediaContainer

definition from_dump :: "state \<Rightarrow> string \<Rightarrow> dump_result" where
  "from_dump s u =
     (if u \<in> get_bad_urls s then DumpFalse
      else case get_pre_container_by_url s u of
             None \<Rightarrow> DumpTrue
           | Some info \<Rightarrow> DumpContainer info)"

text \<open>The two suffix rewrites of the source, each written out where it is used there.\<close>

definition tubcloud_download_url :: "string \<Rightarrow> string" where
  "tubcloud_download_url u = (if endswith u ''/download'' then u else u @ ''/download'')"

definition strip_forcedownload :: "string \<Rightarrow> string" where
  "strip_forcedownload u =
     (if endswith u ''?forcedownload=1''
      then take (length u - length ''?forcedownload=1'') u else u)"

text \<open>
  The host-specific part of \<open>from_extern_link\<close> (the \<open>if\<close>/\<open>elif\<close> chain on the host).
  The result \<open>None\<close> stands for a \<open>return None\<close> in this part; otherwise it is the
  value of \<open>download_url\<close> afterwards.
\<close>

definition pre_resolve :: "env \<Rightarrow> string \<Rightarrow> state \<Rightarrow> string option \<times> state" where
  "pre_resolve e u s =
     (if contains ''tu-berlin.hosted.exlibrisgroup.com'' u then (Some [], s)
      else if contains ''https://drive.google.com/'' u then
        (case parse_google_drive_url e u of
           None \<Rightarrow> (None, s)
         | Some drive_id \<Rightarrow>
             (let temp_url = ''https://drive.google.com/uc?id='' @ drive_id;
                  s1 = s\<lparr>requests := requests s @ [temp_url]\<rparr>
              in case session_get e temp_url of
                   GetRaises \<Rightarrow> (None, s1)
                 | GetNone \<Rightarrow> (None, s1)
                 | GetResponse con \<Rightarrow>
                     if headers con ''Content-Disposition'' \<noteq> None then (Some temp_url, s1)
                     else (case get_url_from_gdrive_confirmation e (text_body con) of
                             None \<Rightarrow> (None, s1)
                           | Some u' \<Rightarrow> (Some u', s1))))
      else if contains ''tubcloud.tu-berlin.de'' u then (Some (tubcloud_download_url u), s)
      else (Some [], s))"

text \<open>The content-type gate.\<close>

definition accepted :: "response \<Rightarrow> bool" where
  "accepted con =
     (case headers con ''Content-Type'' of
        None \<Rightarrow> False
      | Some ct \<Rightarrow> startswith ct ''application/'' \<or> startswith ct ''video/'')"

text \<open>
  The \<open>if\<close>/\<open>else\<close> that computes \<open>time\<close>. The source tests the key \<open>""\<close> and then
  reads the key \<open>"Last-Modified"\<close>, which raises \<open>KeyError\<close> when it is absent.
\<close>

definition time_of_response :: "env \<Rightarrow> response \<Rightarrow> py_error + int" where
  "time_of_response e con =
     (if headers con [] \<noteq> None
      then (case headers con ''Last-Modified'' of
              None \<Rightarrow> Inl KeyError
            | Some lm \<Rightarrow> (case parsedate_to_datetime e lm of
                           None \<Rightarrow> Inl ValueError
                         | Some t \<Rightarrow> Inr t))
      else Inr (now e))"

text \<open>
  \<open>from_extern_link\<close> from the answer of the content probe on: \<open>download_url\<close> is the
  value that the host-specific part left.
\<close>

definition probe_answered ::
  "env \<Rightarrow> string \<Rightarrow> Course \<Rightarrow> MediaType \<Rightarrow> string option \<Rightarrow> string \<Rightarrow> response \<Rightarrow> state
     \<Rightarrow> (py_error + PreMediaContainer option) \<times> state" where
  "probe_answered e u course mt filename download_url0 con s =
     (let download_url1 = (if download_url0 = [] then u else download_url0)
      in if accepted con then
           (let nm = (case filename of
                        Some f \<Rightarrow> f
                      | None \<Rightarrow> (case findall_filename e (headers con) of
                                   n # _ \<Rightarrow> n
                                 | [] \<Rightarrow> basename u))
            in case headers con ''Content-Length'' of
                 None \<Rightarrow> (Inl KeyError, s)
               | Some cl \<Rightarrow>
                  (case py_int e cl of
                     None \<Rightarrow> (Inl ValueError, s)
                   | Some sz \<Rightarrow>
                      (let relative_location = dir_name e mt;
                           loc = Course_path e course [sanitize_name e relative_location]
                       in case time_of_response e con of
                            Inl err \<Rightarrow> (Inl err, s)
                          | Inr tm \<Rightarrow>
                             (let download_url2 = strip_forcedownload download_url1;
                                  container = \<lparr>display_name = nm, url = u,
                                     download_url = download_url2, location = loc, time = tm,
                                     owner_id = course_id course, media_type = mt,
                                     size_bytes = sz, checksum = None\<rparr>
                              in (Inr (Some container), add_pre_container container s)))))
         else
           (let s1 = add_bad_url u s;
                s2 = (if u \<notin> known_bad_extern_urls
                      then s1\<lparr>messages := messages s1 @
                                [''Assertion failed: url not ignored: '' @ u]\<rparr>
                      else s1)
            in (Inr None, s2)))"

text \<open>
  \<open>PreMediaContainer.from_extern_link\<close>. The result is \<open>Inl\<close> for an exception that
  leaves the function, \<open>Inr None\<close> for \<open>return None\<close> and \<open>Inr (Some c)\<close> for a
  container.
\<close>

definition from_extern_link ::
  "env \<Rightarrow> string \<Rightarrow> Course \<Rightarrow> MediaType \<Rightarrow> string option \<Rightarrow> state
     \<Rightarrow> (py_error + PreMediaContainer option) \<times> state" where
  "from_extern_link e u course mt filename s =
     (case from_dump s u of
        DumpFalse \<Rightarrow> (Inr None, s)
      | DumpContainer container \<Rightarrow> (Inr (Some container), s)
      | DumpTrue \<Rightarrow>
          if isis_ignored u then (Inr None, add_bad_url u s)
          else (case pre_resolve e u s of
                  (None, s1) \<Rightarrow> (Inr None, s1)
                | (Some download_url0, s1) \<Rightarrow>
                    (let target = str_or download_url0 u;
                         s2 = s1\<lparr>requests := requests s1 @ [target]\<rparr>
                     in case session_get e target of
                          GetRaises \<Rightarrow> (Inr None, s2)
                        | GetNone \<Rightarrow> (Inr None, add_bad_url u s2)
                        | GetResponse con \<Rightarrow>
                            probe_answered e u course mt filename download_url0 con s2)))"

text \<open>
  \<open>PreMediaContainer.document_from_api\<close>. \<open>os.makedirs\<close> only touches the file system
  and is left out. The suffix is stripped from \<open>url\<close>; \<open>download_url\<close> goes into the
  container as it came.
\<close>

definition document_from_api ::
  "env \<Rightarrow> config \<Rightarrow> string \<Rightarrow> string \<Rightarrow> string \<Rightarrow> Course \<Rightarrow> int \<Rightarrow> string option \<Rightarrow> int
     \<Rightarrow> state \<Rightarrow> PreMediaContainer \<times> state" where
  "document_from_api e cfg nm u download_url0 course last_modified relative_location sz s =
     (let rl0 = (case relative_location of None \<Rightarrow> [] | Some r \<Rightarrow> r);
          rl1 = strip_slash rl0;
          rl2 = (if \<not> make_subdirs cfg then [] else rl1);
          is_video = contains ''mod/videoservice/file.php'' u;
          rl3 = (if is_video then path_join rl2 ''Videos'' else rl2);
          u1 = (if endswith u ''?forcedownload=1''
                then take (length u - length ''?forcedownload=1'') u else u);
          loc = Course_path e course [sanitize_name e rl3];
          s1 = (if \<not> contains ''webservice/pluginfile.php'' u1 \<and>
                   \<not> contains ''mod/videoservice/file.php'' u1
                then s\<lparr>messages := messages s @ [''Assertion failed: ''
                        @ [CHR 0x22] @ ''webservice/pluginfile.php'' @ [CHR 0x22]
                        @ '' not in url and ''
                        @ [CHR 0x22] @ ''mod/videoservice/file.php'' @ [CHR 0x22]
                        @ '' not in url'']\<rparr>
                else s)
      in (\<lparr>display_name = nm, url = u1, download_url = download_url0, location = loc,
           time = last_modified, owner_id = course_id course, media_type = document,
           size_bytes = sz, checksum = None\<rparr>, s1))"

section \<open>Conflict resolution\<close>

text \<open>
  \<open>defaultdict(list)\<close> with \<open>d[k].append(x)\<close>: a Python dictionary keeps its keys in
  insertion order, so it is an association list here. Appending to the list of an
  existing key keeps the key's place; a new key goes to the end.
\<close>

fun dict_append :: "'k \<Rightarrow> 'v \<Rightarrow> ('k \<times> 'v list) list \<Rightarrow> ('k \<times> 'v list) list" where
  "dict_append k x [] = [(k, [x])]"
| "dict_append k x ((k', vs) # d) =
     (if k' = k then (k', vs @ [x]) # d else (k', vs) # dict_append k x d)"

definition group_by :: "('a \<Rightarrow> 'k) \<Rightarrow> 'a list \<Rightarrow> ('k \<times> 'a list) list" where
  "group_by key xs = fold (\<lambda>x d. dict_append (key x) x d) xs []"

text \<open>
  \<open>check_for_conflicts_in_files\<close> mutates the objects of its argument in place. The
  list \<open>files\<close> is the store: an object is referred to by its position in the list, and
  the groups that the function builds hold such references. (The callers build the list
  from freshly constructed objects, so no object occurs at two positions.)
\<close>

type_synonym ref = nat

definition conflicts :: "PreMediaContainer list \<Rightarrow> (string \<times> ref list) list" where
  "conflicts files = group_by (\<lambda>r. display_name (files ! r)) [0..<length files]"

text \<open>
  The list \<open>items\<close> of the source: every group that does not have exactly one member,
  sorted by \<open>time\<close> (\<open>sorted\<close> is stable).
\<close>

definition conflict_rows :: "PreMediaContainer list \<Rightarrow> ref list list" where
  "conflict_rows files =
     map (sort_key (\<lambda>r. time (files ! r)))
       (filter (\<lambda>item. length item \<noteq> 1) (map snd (conflicts files)))"

text \<open>The body of the innermost loop: \<open>item._name = basename + f".{i}" + ext\<close>.\<close>

definition rename :: "nat \<Rightarrow> PreMediaContainer \<Rightarrow> PreMediaContainer" where
  "rename i item =
     (let (base, ext) = splitext (display_name item)
      in item\<lparr>display_name := base @ ''.'' @ str_nat i @ ext\<rparr>)"

definition rename_new_row :: "ref list \<Rightarrow> PreMediaContainer list \<Rightarrow> PreMediaContainer list" where
  "rename_new_row new_row files =
     fold (\<lambda>(i, r) fs. fs[r := rename i (fs ! r)]) (enumerate 0 new_row) files"

text \<open>The sub-groups by \<open>location\<close> of one row that have more than one member.\<close>

definition new_rows :: "PreMediaContainer list \<Rightarrow> ref list \<Rightarrow> ref list list" where
  "new_rows files row =
     map snd (filter (\<lambda>(k, v). length v > 1) (group_by (\<lambda>r. location (files ! r)) row))"

definition resolve_row :: "ref list \<Rightarrow> PreMediaContainer list \<Rightarrow> PreMediaContainer list" where
  "resolve_row row files = fold rename_new_row (new_rows files row) files"

definition check_for_conflicts_in_files :: "PreMediaContainer list \<Rightarrow> PreMediaContainer list" where
  "check_for_conflicts_in_files files = fold resolve_row (conflict_rows files) files"

text \<open>
  The words of the specification, to compare the function with. Two descriptors
  collide when they share display name and target directory. Within such a sub-group
  the members are ordered by timestamp, and by their place in the list where the
  timestamps are equal; the rank of a member is the number of members before it.
\<close>

definition same_target :: "PreMediaContainer list \<Rightarrow> nat \<Rightarrow> nat \<Rightarrow> bool" where
  "same_target files i j =
     (display_name (files ! j) = display_name (files ! i) \<and>
      location (files ! j) = location (files ! i))"

definition collides :: "PreMediaContainer list \<Rightarrow> nat \<Rightarrow> bool" where
  "collides files i =
     list_ex (\<lambda>j. j \<noteq> i \<and> same_target files i j) [0..<length files]"

definition earlier :: "PreMediaContainer list \<Rightarrow> nat \<Rightarrow> nat \<Rightarrow> bool" where
  "earlier files j i =
     (time (files ! j) < time (files ! i) \<or> (time (files ! j) = time (files ! i) \<and> j < i))"

definition rank :: "PreMediaContainer list \<Rightarrow> nat \<Rightarrow> nat" where
  "rank files i =
     length (filter (\<lambda>j. same_target files i j \<and> earlier files j i) [0..<length files])"

text \<open>The new name: the index, between dots, before the extension.\<close>

definition suffixed :: "nat \<Rightarrow> string \<Rightarrow> string" where
  "suffixed i nm = fst (splitext nm) @ ''.'' @ str_nat i @ snd (splitext nm)"

section \<open>Merging the discovered resources\<close>

text \<open>
  The end of \<open>RequestHelper.download_content\<close>, from the results of the discovery on:
  \<open>_documents\<close> (one list for each course), \<open>mod_assign\<close> and \<open>extern\<close>. The loop over
  \<open>extern\<close> appends the videos to \<open>videos\<close> and everything else to \<open>documents\<close>.
\<close>

definition partition_extern ::
  "PreMediaContainer list \<Rightarrow> PreMediaContainer list
     \<Rightarrow> PreMediaContainer list \<times> PreMediaContainer list" where
  "partition_extern extern_found documents =
     fold (\<lambda>thing (videos, docs).
             if media_type thing = video then (videos @ [thing], docs)
             else (videos, docs @ [thing]))
       extern_found ([], documents)"

text \<open>
  \<open>sorted(lst, key=lambda x: x.time, reverse=True)\<close>: descending by \<open>time\<close>, and stable
  (elements with equal times keep their order).
\<close>

definition sort_newest :: "PreMediaContainer list \<Rightarrow> PreMediaContainer list" where
  "sort_newest lst = sort_key (\<lambda>x. - time x) lst"

definition download_content ::
  "PreMediaContainer list list \<Rightarrow> PreMediaContainer list \<Rightarrow> PreMediaContainer list
     \<Rightarrow> PreMediaContainer list" where
  "download_content documents_rows mod_assign extern_found =
     (let documents = concat documents_rows;
          (videos, documents1) = partition_extern extern_found documents;
          all_files = sort_newest (documents1 @ mod_assign) @ sort_newest videos
      in check_for_conflicts_in_files all_files)"

section \<open>Notions used to state and prove the properties\<close>

text \<open>
  The outcome of the content probe, where the resolution of a URL that is neither cached
  nor ignored reaches it: \<open>None\<close> when the host-specific part returned before the probe.
\<close>

definition probe_outcome :: "env \<Rightarrow> string \<Rightarrow> state \<Rightarrow> get_result option" where
  "probe_outcome e u s =
     (case fst (pre_resolve e u s) of
        None \<Rightarrow> None
      | Some d \<Rightarrow> Some (session_get e (str_or d u)))"

text \<open>
  A descriptor with its display name blanked, to compare descriptors up to the name; the
  two buckets that \<open>download_content\<close> sorts.
\<close>

definition clear_name :: "PreMediaContainer \<Rightarrow> PreMediaContainer" where
  "clear_name x = x\<lparr>display_name := []\<rparr>"

definition documents_bucket ::
  "PreMediaContainer list list \<Rightarrow> PreMediaContainer list \<Rightarrow> PreMediaContainer list
     \<Rightarrow> PreMediaContainer list" where
  "documents_bucket rows assign ext =
     concat rows @ filter (\<lambda>t. media_type t \<noteq> video) ext @ assign"

definition videos_bucket :: "PreMediaContainer list \<Rightarrow> PreMediaContainer list" where
  "videos_bucket ext = filter (\<lambda>t. media_type t = video) ext"

text \<open>
  Reading a decimal string back; the keys of a dictionary in insertion order; one step
  of the renaming loop; the order that a stable sort by \<open>f\<close> puts on references; the
  rows that are renamed, and the sub-group of a name and a location.
\<close>

definition digit_val :: "char \<Rightarrow> nat" where
  "digit_val c = of_char c - 48"

definition nat_of_str :: "string \<Rightarrow> nat" where
  "nat_of_str s = foldl (\<lambda>a c. 10 * a + digit_val c) 0 s"

definition first_keys :: "'k list \<Rightarrow> 'k list" where
  "first_keys ks = rev (remdups (rev ks))"

definition rename_step :: "nat \<times> ref \<Rightarrow> PreMediaContainer list \<Rightarrow> PreMediaContainer list" where
  "rename_step = (\<lambda>(i, r) fs. fs[r := rename i (fs ! r)])"

definition before :: "(nat \<Rightarrow> int) \<Rightarrow> nat \<Rightarrow> nat \<Rightarrow> bool" where
  "before f j i = (f j < f i \<or> (f j = f i \<and> j < i))"

definition all_new_rows :: "PreMediaContainer list \<Rightarrow> ref list list" where
  "all_new_rows files = concat (map (new_rows files) (conflict_rows files))"

definition target_group :: "PreMediaContainer list \<Rightarrow> string \<Rightarrow> string \<Rightarrow> ref list" where
  "target_group files k l =
     sort_key (\<lambda>r. time (files ! r))
       (filter (\<lambda>r. display_name (files ! r) = k \<and> location (files ! r) = l) [0..<length files])"

section \<open>Example values\<close>

text \<open>
  Concrete descriptors, courses, responses and collaborators, on which the properties
  below are instantiated.
\<close>

definition example_file :: "string \<Rightarrow> string \<Rightarrow> int \<Rightarrow> MediaType \<Rightarrow> PreMediaContainer" where
  "example_file n l t m =
     \<lparr>display_name = n, url = ''https://isis.tu-berlin.de/webservice/pluginfile.php/'' @ n,
      download_url = ''https://isis.tu-berlin.de/webservice/pluginfile.php/'' @ n,
      location = l, time = t, owner_id = 1, media_type = m, size_bytes = 1, checksum = None\<rparr>"

definition example_notes :: "PreMediaContainer list" where
  "example_notes =
     [example_file ''notes.pdf'' ''/c/A'' 2 document,
      example_file ''notes.pdf'' ''/c/A'' 1 document,
      example_file ''notes.pdf'' ''/c/B'' 1 document]"

definition example_suffixed :: "PreMediaContainer list" where
  "example_suffixed =
     [example_file ''a.pdf'' ''/c/A'' 1 document,
      example_file ''a.pdf'' ''/c/A'' 2 document,
      example_file ''a.0.pdf'' ''/c/A'' 3 document]"

definition example_documents :: "PreMediaContainer list" where
  "example_documents =
     [example_file ''a.pdf'' ''/c/A'' 100 document,
      example_file ''b.pdf'' ''/c/A'' 300 document,
      example_file ''c.pdf'' ''/c/A'' 200 document]"

definition example_extern :: "PreMediaContainer list" where
  "example_extern = [example_file ''v.mp4'' ''/c/Videos'' 999 video]"

definition empty_state :: state where
  "empty_state = \<lparr>bad_urls = {}, pre_containers = Map.empty, requests = [], messages = []\<rparr>"

definition example_course :: Course where
  "example_course = \<lparr>old_name = ''Algebra'', short_name = ''alg'', name = ''alg'', course_id = 7\<rparr>"

definition other_course :: Course where
  "other_course = \<lparr>old_name = ''Analysis'', short_name = ''ana'', name = ''ana'', course_id = 5\<rparr>"

definition example_config :: config where
  "example_config =
     \<lparr>whitelist = Some {5}, blacklist = Some {5}, renamed_courses = None, make_subdirs = True\<rparr>"

definition example_infos :: "course_info list" where
  "example_infos =
     [\<lparr>displayname = ''Analysis'', shortname = ''ana'', info_id = 5\<rparr>,
      \<lparr>displayname = ''Algebra'', shortname = [], info_id = 3\<rparr>]"

definition empty_helper :: RequestHelper where
  "empty_helper = \<lparr>courses = [], all_courses = [], course_id_mapping = Map.empty\<rparr>"

definition example_url :: string where
  "example_url = ''https://example.org/files/a.pdf''"

definition tubcloud_url :: string where
  "tubcloud_url = ''https://tubcloud.tu-berlin.de/s/abc''"

definition forced_url :: string where
  "forced_url = ''https://isis.tu-berlin.de/webservice/pluginfile.php/1/a.pdf?forcedownload=1''"

definition example_response :: response where
  "example_response =
     \<lparr>headers = [''Content-Type'' \<mapsto> ''application/pdf'', ''Content-Length'' \<mapsto> ''10'',
                 ''Last-Modified'' \<mapsto> ''Wed, 21 Oct 2015 07:28:00 GMT''],
      text_body = []\<rparr>"

definition example_env :: env where
  "example_env =
     \<lparr>session_get = (\<lambda>u. GetRaises),
      parse_google_drive_url = (\<lambda>u. None),
      get_url_from_gdrive_confirmation = (\<lambda>t. None),
      sanitize_name = (\<lambda>n. n),
      path = (\<lambda>args. concat (map (\<lambda>a. CHR ''/'' # a) args)),
      dir_name = (\<lambda>m. case m of document \<Rightarrow> [] | extern \<Rightarrow> ''Extern'' | video \<Rightarrow> ''Videos''),
      parsedate_to_datetime = (\<lambda>t. Some 1445412480),
      now = 1700000000,
      py_int = (\<lambda>t. Some 10),
      findall_filename = (\<lambda>h. [])\<rparr>"

definition answering_env :: "get_result \<Rightarrow> env" where
  "answering_env a = example_env\<lparr>session_get := (\<lambda>u. a)\<rparr>"

section \<open>Decimal strings and file names\<close>

lemma digit_val_digit_char: "d < 10 \<Longrightarrow> digit_val (digit_char d) = d"
  by (simp add: digit_val_def digit_char_def)

lemma nat_of_str_snoc: "nat_of_str (s @ [c]) = 10 * nat_of_str s + digit_val c"
  by (simp add: nat_of_str_def)

lemma nat_of_str_str_nat: "nat_of_str (str_nat n) = n"
proof (induction n rule: str_nat.induct)
  case (1 n)
  show ?case
  proof (cases "n < 10")
    case True
    then show ?thesis
      by (subst str_nat.simps) (simp add: nat_of_str_def digit_val_digit_char)
  next
    case False
    then have "nat_of_str (str_nat (n div 10)) = n div 10" using 1 by simp
    with False show ?thesis
      by (subst str_nat.simps) (simp add: nat_of_str_snoc digit_val_digit_char)
  qed
qed

lemma str_nat_inj: "str_nat m = str_nat n \<longleftrightarrow> m = n"
  by (metis nat_of_str_str_nat)

lemma digit_char_not_minus: "d < 10 \<Longrightarrow> digit_char d \<noteq> CHR ''-''"
proof -
  assume "d < 10"
  then have "of_char (digit_char d) = 48 + d" by (simp add: digit_char_def)
  moreover have "of_char (CHR ''-'') = (45::nat)" by simp
  ultimately show ?thesis by auto
qed

lemma str_nat_hd: "hd (str_nat n) \<noteq> CHR ''-'' \<and> str_nat n \<noteq> []"
proof (induction n rule: str_nat.induct)
  case (1 n)
  show ?case
  proof (cases "n < 10")
    case True
    then show ?thesis by (subst (1 2) str_nat.simps) (simp add: digit_char_not_minus)
  next
    case False
    with 1 show ?thesis by (subst (1 2) str_nat.simps) (simp)
  qed
qed

lemma str_int_inj: "str_int i = str_int j \<longleftrightarrow> i = j"
proof
  assume eq: "str_int i = str_int j"
  show "i = j"
  proof (cases "i < 0"; cases "j < 0")
    assume "i < 0" "j < 0"
    with eq show ?thesis by (simp add: str_int_def str_nat_inj)
  next
    assume a: "i < 0" "\<not> j < 0"
    with eq have "CHR ''-'' # str_nat (nat (- i)) = str_nat (nat j)" by (simp add: str_int_def)
    then have "hd (str_nat (nat j)) = CHR ''-''" by (metis list.sel(1))
    then show ?thesis using str_nat_hd by blast
  next
    assume a: "\<not> i < 0" "j < 0"
    with eq have "CHR ''-'' # str_nat (nat (- j)) = str_nat (nat i)" by (simp add: str_int_def)
    then have "hd (str_nat (nat i)) = CHR ''-''" by (metis list.sel(1))
    then show ?thesis using str_nat_hd by blast
  next
    assume "\<not> i < 0" "\<not> j < 0"
    with eq show ?thesis by (simp add: str_int_def str_nat_inj)
  qed
qed simp

lemma str_nat_digits: "\<forall>c \<in> set (str_nat n). \<exists>d<10. c = digit_char d"
proof (induction n rule: str_nat.induct)
  case (1 n)
  show ?case
  proof (cases "n < 10")
    case True
    then show ?thesis by (subst str_nat.simps) auto
  next
    case False
    have "\<exists>d<10. digit_char (n mod 10) = digit_char d"
      by (rule exI [of _ "n mod 10"]) simp
    with False 1 show ?thesis by (subst str_nat.simps) auto
  qed
qed

lemma str_int_not_False: "str_int i \<noteq> ''False''"
proof
  assume a: "str_int i = ''False''"
  show False
  proof (cases "i < 0")
    case True
    with a show False by (simp add: str_int_def)
  next
    case False
    with a have "str_nat (nat i) = ''False''" by (simp add: str_int_def)
    then have "CHR ''F'' \<in> set (str_nat (nat i))" by simp
    then obtain d where "d < 10" "CHR ''F'' = digit_char d" using str_nat_digits by blast
    then have "of_char (CHR ''F'') = 48 + d" by (simp add: digit_char_def)
    then show False using \<open>d < 10\<close> by simp
  qed
qed

lemma str_nat_nonempty: "str_nat n \<noteq> []"
  using str_nat_hd by blast

lemma splitext_append: "fst (splitext p) @ snd (splitext p) = p"
  by (simp add: splitext_def Let_def)

lemma suffixed_neq: "suffixed i nm \<noteq> nm"
proof -
  have "length (suffixed i nm) = length (fst (splitext nm) @ snd (splitext nm)) + 1 + length (str_nat i)"
    by (simp add: suffixed_def)
  then have "length (suffixed i nm) > length nm"
    by (simp add: splitext_append)
  then show ?thesis by auto
qed

section \<open>Comparing courses\<close>

lemma Course_eq_cases:
  "Course_eq c (PyCourse d) \<longleftrightarrow> course_id c = course_id d"
  "Course_eq c (PyBool True)"
  "\<not> Course_eq c (PyBool False)"
  "Course_eq c (PyInt n) \<longleftrightarrow> course_id c = n"
  "Course_eq c (PyStr s) \<longleftrightarrow> s = str_int (course_id c)"
  "\<not> Course_eq c PyOther"
  by (auto simp: Course_eq_def py_str_def str_int_inj str_int_not_False)

text \<open>
  C9, as the code has it: two courses are equal iff their \<open>course_id\<close>s are equal; a
  course is equal to an \<open>int\<close> iff that is its \<open>course_id\<close>, and to a \<open>str\<close> iff that is
  the decimal string of its \<open>course_id\<close>; it is equal to the object \<open>True\<close> whatever its
  \<open>course_id\<close>, and to no other value; a course is less than another iff its \<open>course_id\<close>
  is smaller; its hash is its \<open>course_id\<close>.
\<close>

theorem course_comparison:
  "(Course_eq c (PyCourse d) \<longleftrightarrow> course_id c = course_id d) \<and>
   Course_eq c (PyBool True) \<and>
   \<not> Course_eq c (PyBool False) \<and>
   (Course_eq c (PyInt n) \<longleftrightarrow> course_id c = n) \<and>
   (Course_eq c (PyStr s) \<longleftrightarrow> s = str_int (course_id c)) \<and>
   \<not> Course_eq c PyOther \<and>
   (Course_lt c d \<longleftrightarrow> course_id c < course_id d) \<and>
   Course_hash c = course_id c"
  using Course_eq_cases [of c] by (simp add: Course_lt_def Course_hash_def)

theorem course_comparison_witness:
  "Course_eq example_course (PyInt 7) \<and> Course_eq example_course (PyStr ''7'') \<and>
   \<not> Course_eq example_course (PyStr ''07'') \<and> \<not> Course_eq example_course (PyCourse other_course) \<and>
   Course_lt other_course example_course \<and> Course_hash example_course = 7"
proof -
  have s: "str_int 7 = ''7''" by code_simp
  have i: "course_id example_course = 7" "course_id other_course = 5"
    by (simp_all add: example_course_def other_course_def)
  show ?thesis
    using course_comparison [of example_course other_course 7 "''7''"]
      course_comparison [of example_course other_course 7 "''07''"]
      course_comparison [of other_course example_course 7 "''7''"]
    by (simp add: s i)
qed

text \<open>
  Two courses with different ids are both equal to \<open>True\<close>: equality with \<open>True\<close> is
  not determined by the id.
\<close>

theorem course_eq_true_counterexample:
  "Course_eq example_course (PyBool True) \<and> Course_eq other_course (PyBool True) \<and>
   course_id example_course \<noteq> course_id other_course"
  by (simp add: Course_eq_def example_course_def other_course_def)

section \<open>The course catalogue\<close>

lemma fold_step_all:
  "all_courses (fold (get_courses_step sn cfg) res h) = all_courses h @ map (from_dict sn cfg) res"
  by (induction res arbitrary: h) (simp_all add: get_courses_step_def Let_def)

lemma fold_step_courses:
  "courses (fold (get_courses_step sn cfg) res h) = courses h @ filter (ok cfg) (map (from_dict sn cfg) res)"
  by (induction res arbitrary: h) (simp_all add: get_courses_step_def Let_def)

lemma get_courses_all:
  "all_courses (get_courses sn cfg res h) = sort_key course_id (map (from_dict sn cfg) res)"
  by (simp add: get_courses_def Let_def fold_step_all)

lemma get_courses_courses:
  "courses (get_courses sn cfg res h) = sort_key course_id (filter (ok cfg) (map (from_dict sn cfg) res))"
  by (simp add: get_courses_def Let_def fold_step_courses)

lemma get_courses_filter:
  "courses (get_courses sn cfg res h) = filter (ok cfg) (all_courses (get_courses sn cfg res h))"
  by (simp add: get_courses_all get_courses_courses filter_sort)

text \<open>
  C1: after \<open>get_courses\<close>, for every configuration and every enumerated list, \<open>courses\<close>
  is a subset of \<open>_courses\<close>, both are sorted by ascending \<open>course_id\<close>, \<open>_courses\<close> holds
  the enumerated courses, \<open>courses\<close> holds exactly those of them that are \<open>ok\<close>, and \<open>ok\<close>
  follows the four cases: neither set configured includes all; blacklist only includes a
  course unless its id is in the blacklist; whitelist only includes it only if its id is in
  the whitelist; with both it is included iff its id is in the whitelist and not in the
  blacklist.
\<close>

theorem courses_filtered:
  "set (courses (get_courses e cfg res h)) \<subseteq> set (all_courses (get_courses e cfg res h)) \<and>
   sorted (map course_id (all_courses (get_courses e cfg res h))) \<and>
   sorted (map course_id (courses (get_courses e cfg res h))) \<and>
   mset (all_courses (get_courses e cfg res h)) = mset (map (from_dict e cfg) res) \<and>
   courses (get_courses e cfg res h) = filter (ok cfg) (all_courses (get_courses e cfg res h)) \<and>
   (whitelist cfg = None \<and> blacklist cfg = None \<longrightarrow> ok cfg c) \<and>
   (whitelist cfg = None \<and> blacklist cfg = Some b \<longrightarrow> (ok cfg c \<longleftrightarrow> course_id c \<notin> b)) \<and>
   (whitelist cfg = Some w \<and> blacklist cfg = None \<longrightarrow> (ok cfg c \<longleftrightarrow> course_id c \<in> w)) \<and>
   (whitelist cfg = Some w \<and> blacklist cfg = Some b \<longrightarrow>
      (ok cfg c \<longleftrightarrow> course_id c \<in> w \<and> course_id c \<notin> b))"
proof -
  have "courses (get_courses e cfg res h) = filter (ok cfg) (all_courses (get_courses e cfg res h))"
    by (rule get_courses_filter)
  moreover from this
  have "set (courses (get_courses e cfg res h)) \<subseteq> set (all_courses (get_courses e cfg res h))"
    by (metis filter_is_subset)
  moreover have "sorted (map course_id (all_courses (get_courses e cfg res h)))"
    by (simp add: get_courses_all)
  moreover have "sorted (map course_id (courses (get_courses e cfg res h)))"
    by (simp add: get_courses_courses)
  moreover have "mset (all_courses (get_courses e cfg res h)) = mset (map (from_dict e cfg) res)"
    by (simp add: get_courses_all)
  ultimately show ?thesis by (simp add: ok_def)
qed

theorem courses_filtered_witness:
  "whitelist example_config = Some {5} \<and> blacklist example_config = Some {5} \<and>
   \<not> ok example_config other_course \<and>
   map course_id (all_courses (get_courses example_env example_config example_infos empty_helper))
     = [3, 5] \<and>
   courses (get_courses example_env example_config example_infos empty_helper) = []"
proof -
  have a: "map course_id
      (all_courses (get_courses example_env example_config example_infos empty_helper)) = [3, 5]"
    by (simp add: get_courses_all example_infos_def from_dict_def Let_def example_config_def)
  have w: "whitelist example_config = Some {5}" "blacklist example_config = Some {5}"
    "course_id other_course = 5"
    by (simp_all add: example_config_def other_course_def)
  have o: "\<not> ok example_config c" for c
    using courses_filtered [of example_env example_config example_infos empty_helper c "{5}" "{5}"] w
    by auto
  have "courses (get_courses example_env example_config example_infos empty_helper) = []"
    using courses_filtered [of example_env example_config example_infos empty_helper other_course "{5}" "{5}"] o
    by (simp add: filter_empty_conv)
  with a w o show ?thesis by simp
qed

section \<open>Grouping\<close>

lemma first_keys_snoc:
  "first_keys (ks @ [k]) = (if k \<in> set ks then first_keys ks else first_keys ks @ [k])"
  by (simp add: first_keys_def)

lemma set_first_keys: "set (first_keys ks) = set ks"
  by (simp add: first_keys_def)

lemma distinct_first_keys: "distinct (first_keys ks)"
  by (simp add: first_keys_def)

lemma dict_append_tabulate:
  "distinct ks \<Longrightarrow>
   dict_append k x (map (\<lambda>a. (a, g a)) ks) =
     (if k \<in> set ks then map (\<lambda>a. (a, if a = k then g a @ [x] else g a)) ks
      else map (\<lambda>a. (a, g a)) ks @ [(k, [x])])"
proof (induction ks)
  case Nil
  then show ?case by simp
next
  case (Cons a ks)
  show ?case
  proof (cases "a = k")
    case True
    with Cons.prems have "k \<notin> set ks" by simp
    then have "map (\<lambda>a. (a, if a = k then g a @ [x] else g a)) ks = map (\<lambda>a. (a, g a)) ks"
      by (intro map_cong) auto
    with True show ?thesis by simp
  next
    case False
    with Cons show ?thesis by simp
  qed
qed

lemma group_by_snoc: "group_by f (xs @ [x]) = dict_append (f x) x (group_by f xs)"
  by (simp add: group_by_def)

lemma group_by_tabulate:
  "group_by f xs = map (\<lambda>k. (k, filter (\<lambda>x. f x = k) xs)) (first_keys (map f xs))"
proof (induction xs rule: rev_induct)
  case Nil
  then show ?case by (simp add: group_by_def first_keys_def)
next
  case (snoc x xs)
  let ?ks = "first_keys (map f xs)"
  have step: "group_by f (xs @ [x]) =
      dict_append (f x) x (map (\<lambda>k. (k, filter (\<lambda>y. f y = k) xs)) ?ks)"
    by (simp add: group_by_snoc snoc.IH)
  show ?case
  proof (cases "f x \<in> set (map f xs)")
    case True
    then have "f x \<in> set ?ks" by (simp add: set_first_keys)
    then show ?thesis
      unfolding step using True
      by (simp add: dict_append_tabulate distinct_first_keys first_keys_snoc)
  next
    case False
    then have notin: "f x \<notin> set ?ks" by (simp add: set_first_keys)
    have "\<forall>y\<in>set xs. f y \<noteq> f x" using False by (metis imageI image_set)
    then have nil: "filter (\<lambda>y. f y = f x) xs = []" by (simp add: filter_empty_conv)
    have "map (\<lambda>k. (k, filter (\<lambda>y. f y = k) (xs @ [x]))) ?ks
        = map (\<lambda>k. (k, filter (\<lambda>y. f y = k) xs)) ?ks"
      using notin by (intro map_cong) auto
    then show ?thesis
      unfolding step using False notin
      by (simp add: dict_append_tabulate distinct_first_keys first_keys_snoc nil)
  qed
qed

lemma group_by_mem:
  "(k, v) \<in> set (group_by f xs) \<longleftrightarrow> k \<in> f ` set xs \<and> v = filter (\<lambda>x. f x = k) xs"
  by (auto simp: group_by_tabulate set_first_keys)

lemma group_by_cong:
  "(\<And>x. x \<in> set xs \<Longrightarrow> f x = g x) \<Longrightarrow> group_by f xs = group_by g xs"
proof -
  assume a: "\<And>x. x \<in> set xs \<Longrightarrow> f x = g x"
  then have m: "map f xs = map g xs" by simp
  have "\<And>k. filter (\<lambda>x. f x = k) xs = filter (\<lambda>x. g x = k) xs"
    using a by (intro filter_cong) auto
  then show ?thesis by (simp add: group_by_tabulate m)
qed

lemma mset_concat_tabulate:
  "distinct ks \<Longrightarrow> mset (concat (map (\<lambda>k. filter (\<lambda>x. f x = k) xs) ks))
     = filter_mset (\<lambda>x. f x \<in> set ks) (mset xs)"
proof (induction ks)
  case Nil
  then show ?case by simp
next
  case (Cons k ks)
  then have "k \<notin> set ks" by simp
  have "filter_mset (\<lambda>x. f x \<in> set (k # ks)) (mset xs)
      = filter_mset (\<lambda>x. f x = k) (mset xs) + filter_mset (\<lambda>x. f x \<in> set ks) (mset xs)"
    using \<open>k \<notin> set ks\<close> by (induction xs) auto
  with Cons show ?case by simp
qed

lemma mset_group_by: "mset (concat (map snd (group_by f xs))) = mset xs"
proof -
  have "mset (concat (map snd (group_by f xs)))
      = mset (concat (map (\<lambda>k. filter (\<lambda>x. f x = k) xs) (first_keys (map f xs))))"
    by (simp add: group_by_tabulate comp_def)
  also have "\<dots> = filter_mset (\<lambda>x. f x \<in> set (first_keys (map f xs))) (mset xs)"
    by (rule mset_concat_tabulate) (rule distinct_first_keys)
  also have "\<dots> = mset xs"
    by (simp add: set_first_keys filter_mset_eq_conv)
  finally show ?thesis .
qed

lemma mset_concat_filter: "mset (concat (filter P xss)) \<subseteq># mset (concat xss)"
  by (induction xss) (auto intro: subset_mset.add_mono subset_mset.order_trans)

lemma mset_concat_map_sort: "mset (concat (map (sort_key f) xss)) = mset (concat xss)"
  by (induction xss) auto

lemma mset_concat_concat:
  "(\<And>r. r \<in> set rs \<Longrightarrow> mset (concat (g r)) \<subseteq># mset r) \<Longrightarrow>
   mset (concat (concat (map g rs))) \<subseteq># mset (concat rs)"
  by (induction rs) (auto intro: subset_mset.add_mono)

lemma distinct_sub_mset: "mset ys \<subseteq># mset xs \<Longrightarrow> distinct xs \<Longrightarrow> distinct ys"
proof -
  assume sub: "mset ys \<subseteq># mset xs" and d: "distinct xs"
  have "count (mset ys) a = (if a \<in> set ys then 1 else 0)" for a
  proof (cases "a \<in> set ys")
    case True
    then have "1 \<le> count (mset ys) a" by (simp add: Suc_le_eq)
    moreover have "count (mset ys) a \<le> count (mset xs) a"
      using sub by (rule mset_subset_eq_count)
    moreover have "count (mset xs) a \<le> 1"
      using d by (simp add: distinct_count_atmost_1)
    ultimately have "count (mset ys) a = 1" by linarith
    then show ?thesis using True by simp
  next
    case False
    then show ?thesis by (simp add: count_mset_0_iff)
  qed
  then show ?thesis by (simp add: distinct_count_atmost_1)
qed

section \<open>Renaming along rows\<close>

lemma rename_frame:
  "rename i x = x\<lparr>display_name := suffixed i (display_name x)\<rparr>"
  by (simp add: rename_def suffixed_def split: prod.splits)

lemma rename_new_row_alt: "rename_new_row row fs = fold rename_step (enumerate 0 row) fs"
  by (simp add: rename_new_row_def rename_step_def)

lemma fold_rename_step:
  "distinct row \<Longrightarrow> \<forall>r\<in>set row. r < length fs \<Longrightarrow>
   length (fold rename_step (enumerate k row) fs) = length fs \<and>
   (\<forall>p<length row. fold rename_step (enumerate k row) fs ! (row ! p) = rename (k + p) (fs ! (row ! p))) \<and>
   (\<forall>r. r \<notin> set row \<longrightarrow> fold rename_step (enumerate k row) fs ! r = fs ! r)"
proof (induction row arbitrary: k fs)
  case Nil
  then show ?case by simp
next
  case (Cons a row)
  let ?fs = "fs[a := rename k (fs ! a)]"
  have d: "distinct row" and a: "a \<notin> set row" using Cons.prems(1) by auto
  have r: "\<forall>r\<in>set row. r < length ?fs" using Cons.prems(2) by simp
  note IH = Cons.IH [OF d r, of "Suc k"]
  have unf: "fold rename_step (enumerate k (a # row)) fs = fold rename_step (enumerate (Suc k) row) ?fs"
    by (simp add: rename_step_def)
  have len: "length (fold rename_step (enumerate k (a # row)) fs) = length fs"
    unfolding unf using IH by simp
  have in_row: "fold rename_step (enumerate k (a # row)) fs ! ((a # row) ! p)
      = rename (k + p) (fs ! ((a # row) ! p))" if "p < length (a # row)" for p
  proof (cases p)
    case 0
    have "fold rename_step (enumerate (Suc k) row) ?fs ! a = ?fs ! a" using IH a by blast
    also have "\<dots> = rename k (fs ! a)" using Cons.prems(2) by simp
    finally show ?thesis unfolding unf using 0 by simp
  next
    case (Suc q)
    then have q: "q < length row" using that by simp
    then have ne: "row ! q \<noteq> a" using a nth_mem by metis
    have "fold rename_step (enumerate (Suc k) row) ?fs ! (row ! q) = rename (Suc k + q) (?fs ! (row ! q))"
      using IH q by blast
    also have "?fs ! (row ! q) = fs ! (row ! q)" using ne by simp
    finally show ?thesis unfolding unf using Suc by simp
  qed
  have out_row: "fold rename_step (enumerate k (a # row)) fs ! r = fs ! r" if "r \<notin> set (a # row)" for r
  proof -
    from that have "r \<notin> set row" "r \<noteq> a" by auto
    then have "fold rename_step (enumerate (Suc k) row) ?fs ! r = ?fs ! r" using IH by blast
    also have "\<dots> = fs ! r" using \<open>r \<noteq> a\<close> by simp
    finally show ?thesis unfolding unf .
  qed
  show ?case using len in_row out_row by blast
qed

lemma rename_new_row_spec:
  assumes "distinct row" "\<forall>r\<in>set row. r < length fs"
  shows "length (rename_new_row row fs) = length fs"
    and "\<And>p. p < length row \<Longrightarrow> rename_new_row row fs ! (row ! p) = rename p (fs ! (row ! p))"
    and "\<And>r. r \<notin> set row \<Longrightarrow> rename_new_row row fs ! r = fs ! r"
  using fold_rename_step [OF assms, of 0] by (simp_all add: rename_new_row_alt)

lemma fold_rename_new_row:
  "distinct (concat rows) \<Longrightarrow> \<forall>r\<in>set (concat rows). r < length fs \<Longrightarrow>
   length (fold rename_new_row rows fs) = length fs \<and>
   (\<forall>row\<in>set rows. \<forall>p<length row.
       fold rename_new_row rows fs ! (row ! p) = rename p (fs ! (row ! p))) \<and>
   (\<forall>r. r \<notin> set (concat rows) \<longrightarrow> fold rename_new_row rows fs ! r = fs ! r)"
proof (induction rows arbitrary: fs)
  case Nil
  then show ?case by simp
next
  case (Cons row rows)
  let ?fs = "rename_new_row row fs"
  have drow: "distinct row" and drows: "distinct (concat rows)"
    and disj: "set row \<inter> set (concat rows) = {}"
    using Cons.prems(1) by auto
  have rrow: "\<forall>r\<in>set row. r < length fs" using Cons.prems(2) by simp
  note R = rename_new_row_spec [OF drow rrow]
  have rrows: "\<forall>r\<in>set (concat rows). r < length ?fs" using Cons.prems(2) R(1) by simp
  note IH = Cons.IH [OF drows rrows]
  have len: "length (fold rename_new_row (row # rows) fs) = length fs"
    using IH R(1) by simp
  have here: "fold rename_new_row (row # rows) fs ! (row ! p) = rename p (fs ! (row ! p))"
    if "p < length row" for p
  proof -
    have "row ! p \<in> set row" using that by simp
    then have "row ! p \<notin> set (concat rows)" using disj by blast
    then have "fold rename_new_row rows ?fs ! (row ! p) = ?fs ! (row ! p)" using IH by blast
    then show ?thesis using R(2) [OF that] by simp
  qed
  have later: "fold rename_new_row (row # rows) fs ! (row' ! p) = rename p (fs ! (row' ! p))"
    if "row' \<in> set rows" "p < length row'" for row' p
  proof -
    have "row' ! p \<in> set row'" using that(2) by simp
    then have "row' ! p \<in> set (concat rows)" using that(1) by auto
    then have "row' ! p \<notin> set row" using disj by blast
    then have "?fs ! (row' ! p) = fs ! (row' ! p)" by (rule R(3))
    moreover have "fold rename_new_row rows ?fs ! (row' ! p) = rename p (?fs ! (row' ! p))"
      using IH that by blast
    ultimately show ?thesis by simp
  qed
  have out: "fold rename_new_row (row # rows) fs ! r = fs ! r" if "r \<notin> set (concat (row # rows))" for r
  proof -
    from that have "r \<notin> set row" "r \<notin> set (concat rows)" by auto
    then show ?thesis using IH R(3) by simp
  qed
  show ?case using len here later out by auto
qed

section \<open>Stable sorting and ranks\<close>

lemma before_trans: "before f a b \<Longrightarrow> before f b c \<Longrightarrow> before f a c"
  by (auto simp: before_def)

lemma before_irrefl: "\<not> before f a a"
  by (simp add: before_def)

lemma before_asym: "before f a b \<Longrightarrow> \<not> before f b a"
  by (auto simp: before_def)

lemma insort_before:
  "sorted_wrt (before f) ys \<Longrightarrow> \<forall>y\<in>set ys. x < y \<Longrightarrow> sorted_wrt (before f) (insort_key f x ys)"
proof (induction ys)
  case Nil
  then show ?case by simp
next
  case (Cons y ys)
  show ?case
  proof (cases "f x \<le> f y")
    case True
    then have xy: "before f x y" using Cons.prems(2) by (auto simp: before_def)
    then have "\<forall>z\<in>set ys. before f x z" using Cons.prems(1) by (auto intro: before_trans)
    with xy True Cons.prems(1) show ?thesis by simp
  next
    case False
    then have yx: "before f y x" by (simp add: before_def)
    have "sorted_wrt (before f) (insort_key f x ys)" using Cons by simp
    with False yx Cons.prems(1) show ?thesis by (auto simp: set_insort_key)
  qed
qed

lemma sort_key_before:
  "sorted_wrt (<) xs \<Longrightarrow> sorted_wrt (before f) (sort_key f xs)"
proof (induction xs)
  case Nil
  then show ?case by simp
next
  case (Cons x xs)
  then have "sorted_wrt (before f) (sort_key f xs)" by simp
  moreover have "\<forall>y\<in>set (sort_key f xs). x < y" using Cons.prems by simp
  ultimately show ?case by (simp add: insort_before)
qed

lemma sorted_before_position:
  assumes "sorted_wrt (before f) r" "p < length r"
  shows "length (filter (\<lambda>j. before f j (r ! p)) r) = p"
proof -
  have split: "r = take p r @ r ! p # drop (Suc p) r" using assms(2) by (rule id_take_nth_drop)
  have s: "sorted_wrt (before f) (take p r @ r ! p # drop (Suc p) r)" using assms(1) split by simp
  have pre: "\<forall>j\<in>set (take p r). before f j (r ! p)"
    using s by (auto simp: sorted_wrt_append)
  have post: "\<forall>j\<in>set (drop (Suc p) r). \<not> before f j (r ! p)"
    using s by (auto simp: sorted_wrt_append dest: before_asym)
  have "filter (\<lambda>j. before f j (r ! p)) r
      = filter (\<lambda>j. before f j (r ! p)) (take p r) @ filter (\<lambda>j. before f j (r ! p)) (r ! p # drop (Suc p) r)"
    by (subst split) simp
  also have "filter (\<lambda>j. before f j (r ! p)) (take p r) = take p r"
    using pre by (simp add: filter_id_conv)
  also have "filter (\<lambda>j. before f j (r ! p)) (r ! p # drop (Suc p) r) = []"
    using post by (simp add: before_irrefl filter_empty_conv)
  finally show ?thesis using assms(2) by simp
qed

lemma length_filter_sort_key:
  "length (filter Q (sort_key f xs)) = length (filter Q xs)"
proof -
  have "mset (filter Q (sort_key f xs)) = mset (filter Q xs)" by simp
  then show ?thesis by (rule mset_eq_length)
qed

lemma two_members_length: "x \<in> set v \<Longrightarrow> y \<in> set v \<Longrightarrow> x \<noteq> y \<Longrightarrow> 1 < length v"
  by (cases v; cases "tl v") auto

lemma long_distinct_other:
  assumes "1 < length v" "distinct v" "x \<in> set v"
  shows "\<exists>y\<in>set v. y \<noteq> x"
proof (rule ccontr)
  assume "\<not> (\<exists>y\<in>set v. y \<noteq> x)"
  then have "set v \<subseteq> {x}" by auto
  then have "card (set v) \<le> card {x}" by (intro card_mono) auto
  then show False using assms(1,2) by (simp add: distinct_card)
qed

section \<open>What conflict resolution computes\<close>

lemma rename_location: "location (rename i x) = location x"
  by (simp add: rename_frame)

lemma rename_step_location:
  "map location (rename_step ir fs) = map location fs \<and> length (rename_step ir fs) = length fs"
proof (cases ir)
  case (Pair i r)
  show ?thesis
  proof (cases "r < length fs")
    case True
    then have "(map location fs)[r := location (fs ! r)] = map location fs"
      by (metis list_update_id nth_map)
    with Pair show ?thesis by (simp add: rename_step_def map_update rename_location)
  next
    case False
    with Pair show ?thesis by (simp add: rename_step_def list_update_beyond)
  qed
qed

lemma fold_rename_step_location:
  "map location (fold rename_step irs fs) = map location fs \<and>
   length (fold rename_step irs fs) = length fs"
  by (induction irs arbitrary: fs) (simp_all add: rename_step_location)

lemma rename_new_row_location:
  "map location (rename_new_row row fs) = map location fs"
  "length (rename_new_row row fs) = length fs"
  by (simp_all add: rename_new_row_alt fold_rename_step_location)

lemma fold_rename_new_row_location:
  "map location (fold rename_new_row rows fs) = map location fs \<and>
   length (fold rename_new_row rows fs) = length fs"
  by (induction rows arbitrary: fs) (simp_all add: rename_new_row_location)

lemma new_rows_cong:
  assumes "map location fs = map location files" "\<forall>r\<in>set row. r < length files"
  shows "new_rows fs row = new_rows files row"
proof -
  have len: "length fs = length files" using assms(1) by (metis length_map)
  have "location (fs ! r) = location (files ! r)" if "r \<in> set row" for r
  proof -
    have "r < length files" using that assms(2) by blast
    then show ?thesis using assms(1) len by (metis nth_map)
  qed
  then have "group_by (\<lambda>r. location (fs ! r)) row = group_by (\<lambda>r. location (files ! r)) row"
    by (intro group_by_cong) simp
  then show ?thesis by (simp add: new_rows_def)
qed

lemma fold_resolve_row:
  "\<forall>row\<in>set rows. \<forall>r\<in>set row. r < length files \<Longrightarrow> map location fs = map location files \<Longrightarrow>
   fold resolve_row rows fs = fold rename_new_row (concat (map (new_rows files) rows)) fs"
proof (induction rows arbitrary: fs)
  case Nil
  then show ?case by simp
next
  case (Cons row rows)
  have eq: "new_rows fs row = new_rows files row"
    using Cons.prems by (intro new_rows_cong) simp_all
  let ?fs = "fold rename_new_row (new_rows files row) fs"
  have "map location ?fs = map location files"
    using Cons.prems(2) by (simp add: fold_rename_new_row_location)
  then have "fold resolve_row rows ?fs = fold rename_new_row (concat (map (new_rows files) rows)) ?fs"
    using Cons.prems(1) by (intro Cons.IH) simp_all
  moreover have "resolve_row row fs = ?fs" by (simp add: resolve_row_def eq)
  ultimately show ?case by simp
qed

lemma conflicts_mem:
  "(k, g) \<in> set (conflicts files) \<longleftrightarrow>
     k \<in> (\<lambda>r. display_name (files ! r)) ` {..<length files} \<and>
     g = filter (\<lambda>r. display_name (files ! r) = k) [0..<length files]"
  by (simp add: conflicts_def group_by_mem atLeast_upt)

lemma conflict_rows_mem:
  "row \<in> set (conflict_rows files) \<longleftrightarrow>
     (\<exists>k. k \<in> (\<lambda>r. display_name (files ! r)) ` {..<length files} \<and>
       length (filter (\<lambda>r. display_name (files ! r) = k) [0..<length files]) \<noteq> 1 \<and>
       row = sort_key (\<lambda>r. time (files ! r))
               (filter (\<lambda>r. display_name (files ! r) = k) [0..<length files]))"
  (is "?L \<longleftrightarrow> ?R")
proof
  assume ?L
  then obtain g where g: "g \<in> snd ` set (conflicts files)" "length g \<noteq> 1"
      "row = sort_key (\<lambda>r. time (files ! r)) g"
    by (auto simp: conflict_rows_def)
  from g(1) obtain k where "(k, g) \<in> set (conflicts files)" by force
  then have "k \<in> (\<lambda>r. display_name (files ! r)) ` {..<length files}"
    and "g = filter (\<lambda>r. display_name (files ! r) = k) [0..<length files]"
    by (simp_all add: conflicts_mem)
  with g(2,3) show ?R by blast
next
  assume ?R
  then obtain k where k: "k \<in> (\<lambda>r. display_name (files ! r)) ` {..<length files}"
      "length (filter (\<lambda>r. display_name (files ! r) = k) [0..<length files]) \<noteq> 1"
      "row = sort_key (\<lambda>r. time (files ! r))
               (filter (\<lambda>r. display_name (files ! r) = k) [0..<length files])"
    by blast
  let ?g = "filter (\<lambda>r. display_name (files ! r) = k) [0..<length files]"
  have "(k, ?g) \<in> set (conflicts files)" using k(1) by (simp add: conflicts_mem)
  then have "?g \<in> snd ` set (conflicts files)" by force
  with k(2,3) show ?L by (simp add: conflict_rows_def)
qed

lemma conflict_rows_range:
  "row \<in> set (conflict_rows files) \<Longrightarrow> r \<in> set row \<Longrightarrow> r < length files"
  by (auto simp: conflict_rows_mem)

lemma new_rows_mem:
  "v \<in> set (new_rows files row) \<longleftrightarrow>
     (\<exists>l. l \<in> (\<lambda>r. location (files ! r)) ` set row \<and>
       v = filter (\<lambda>r. location (files ! r) = l) row \<and> 1 < length v)"
  (is "?L \<longleftrightarrow> ?R")
proof
  assume ?L
  then obtain l where "(l, v) \<in> set (group_by (\<lambda>r. location (files ! r)) row)" "1 < length v"
    by (auto simp: new_rows_def)
  then show ?R by (auto simp: group_by_mem)
next
  assume ?R
  then obtain l where l: "l \<in> (\<lambda>r. location (files ! r)) ` set row"
      "v = filter (\<lambda>r. location (files ! r) = l) row" "1 < length v"
    by blast
  then have "(l, v) \<in> set (group_by (\<lambda>r. location (files ! r)) row)"
    by (simp add: group_by_mem)
  with l(3) have "(l, v) \<in> set (filter (\<lambda>(k, v). 1 < length v)
      (group_by (\<lambda>r. location (files ! r)) row))" by simp
  then show ?L unfolding new_rows_def by force
qed

lemma check_alt:
  "check_for_conflicts_in_files files = fold rename_new_row (all_new_rows files) files"
  unfolding check_for_conflicts_in_files_def all_new_rows_def
  by (intro fold_resolve_row) (auto dest: conflict_rows_range)

lemma all_new_rows_mem:
  "v \<in> set (all_new_rows files) \<longleftrightarrow>
     (\<exists>k l. v = target_group files k l \<and> 1 < length v)"
proof
  assume "v \<in> set (all_new_rows files)"
  then obtain row where row: "row \<in> set (conflict_rows files)" and v: "v \<in> set (new_rows files row)"
    by (auto simp: all_new_rows_def)
  from row obtain k where
    k: "row = sort_key (\<lambda>r. time (files ! r))
               (filter (\<lambda>r. display_name (files ! r) = k) [0..<length files])"
    by (auto simp: conflict_rows_mem)
  from v obtain l where l: "v = filter (\<lambda>r. location (files ! r) = l) row" "1 < length v"
    by (auto simp: new_rows_mem)
  have "v = target_group files k l"
    unfolding l(1) k target_group_def by (simp add: filter_sort)
  with l(2) show "\<exists>k l. v = target_group files k l \<and> 1 < length v" by blast
next
  assume "\<exists>k l. v = target_group files k l \<and> 1 < length v"
  then obtain k l where v: "v = target_group files k l" and len: "1 < length v" by blast
  let ?g = "filter (\<lambda>r. display_name (files ! r) = k) [0..<length files]"
  let ?row = "sort_key (\<lambda>r. time (files ! r)) ?g"
  have veq: "v = filter (\<lambda>r. location (files ! r) = l) ?row"
    unfolding v target_group_def by (simp add: filter_sort)
  from len obtain r where r: "r \<in> set v" by (cases v) auto
  then have r_row: "r \<in> set ?row" and r_l: "location (files ! r) = l" using veq by auto
  then have r_k: "display_name (files ! r) = k" "r < length files" by auto
  have "length v \<le> length ?row" unfolding veq by (rule length_filter_le)
  then have "length ?g \<noteq> 1" using len by simp
  then have "?row \<in> set (conflict_rows files)"
    unfolding conflict_rows_mem using r_k by (intro exI [of _ k]) auto
  moreover have "v \<in> set (new_rows files ?row)"
    unfolding new_rows_mem using r_row r_l veq len by (intro exI [of _ l]) auto
  ultimately show "v \<in> set (all_new_rows files)" by (auto simp: all_new_rows_def)
qed

lemma new_rows_sub: "mset (concat (new_rows files row)) \<subseteq># mset row"
proof -
  have "new_rows files row
      = filter (\<lambda>v. length v > 1) (map snd (group_by (\<lambda>r. location (files ! r)) row))"
    by (simp add: new_rows_def filter_map comp_def case_prod_unfold)
  then have "mset (concat (new_rows files row))
      \<subseteq># mset (concat (map snd (group_by (\<lambda>r. location (files ! r)) row)))"
    by (simp add: mset_concat_filter)
  then show ?thesis by (simp add: mset_group_by)
qed

lemma distinct_all_new_rows: "distinct (concat (all_new_rows files))"
proof -
  have "mset (concat (all_new_rows files)) \<subseteq># mset (concat (conflict_rows files))"
    unfolding all_new_rows_def by (intro mset_concat_concat new_rows_sub)
  also have "mset (concat (conflict_rows files))
      = mset (concat (filter (\<lambda>item. length item \<noteq> 1) (map snd (conflicts files))))"
    by (simp add: conflict_rows_def mset_concat_map_sort)
  also have "\<dots> \<subseteq># mset (concat (map snd (conflicts files)))"
    by (rule mset_concat_filter)
  also have "\<dots> = mset [0..<length files]"
    by (simp add: conflicts_def mset_group_by)
  finally have "mset (concat (all_new_rows files)) \<subseteq># mset [0..<length files]" .
  then show ?thesis by (rule distinct_sub_mset) simp
qed

lemma set_target_group:
  "set (target_group files k l) =
     {r. r < length files \<and> display_name (files ! r) = k \<and> location (files ! r) = l}"
  by (auto simp: target_group_def)

lemma all_new_rows_range: "r \<in> set (concat (all_new_rows files)) \<Longrightarrow> r < length files"
  by (auto simp: all_new_rows_mem set_target_group)

lemma collides_iff:
  "collides files i \<longleftrightarrow>
     (\<exists>j<length files. j \<noteq> i \<and> display_name (files ! j) = display_name (files ! i) \<and>
        location (files ! j) = location (files ! i))"
  by (auto simp: collides_def list_ex_iff same_target_def)

lemma collides_in_row:
  assumes "i < length files"
  shows "collides files i \<longleftrightarrow> i \<in> set (concat (all_new_rows files))"
proof
  assume "collides files i"
  then obtain j where j: "j < length files" "j \<noteq> i"
      "display_name (files ! j) = display_name (files ! i)"
      "location (files ! j) = location (files ! i)"
    by (auto simp: collides_iff)
  let ?v = "target_group files (display_name (files ! i)) (location (files ! i))"
  have "i \<in> set ?v" "j \<in> set ?v" using assms j by (simp_all add: set_target_group)
  then have "1 < length ?v" using j(2) by (metis two_members_length)
  then have "?v \<in> set (all_new_rows files)" by (auto simp: all_new_rows_mem)
  with \<open>i \<in> set ?v\<close> show "i \<in> set (concat (all_new_rows files))" by auto
next
  assume "i \<in> set (concat (all_new_rows files))"
  then obtain k l where v: "i \<in> set (target_group files k l)" "1 < length (target_group files k l)"
    by (auto simp: all_new_rows_mem)
  have "distinct (target_group files k l)" by (simp add: target_group_def)
  with v obtain j where j: "j \<in> set (target_group files k l)" "j \<noteq> i"
    using long_distinct_other by metis
  with v(1) show "collides files i" unfolding collides_iff set_target_group by auto
qed

lemma target_group_position:
  assumes "p < length (target_group files k l)"
  shows "rank files (target_group files k l ! p) = p"
proof -
  let ?P = "\<lambda>r. display_name (files ! r) = k \<and> location (files ! r) = l"
  let ?f = "\<lambda>r. time (files ! r)"
  let ?v = "target_group files k l"
  let ?i = "?v ! p"
  have "?i \<in> set ?v" using assms by simp
  then have i: "?i < length files" "display_name (files ! ?i) = k" "location (files ! ?i) = l"
    by (simp_all add: set_target_group)
  have "sorted_wrt (<) (filter ?P [0..<length files])" by (simp add: sorted_wrt_filter)
  then have s: "sorted_wrt (before ?f) ?v" unfolding target_group_def by (rule sort_key_before)
  have "rank files ?i = length (filter (\<lambda>j. before ?f j ?i) (filter ?P [0..<length files]))"
    unfolding rank_def same_target_def earlier_def before_def using i(2,3)
    by (simp add: conj_commute)
  also have "\<dots> = length (filter (\<lambda>j. before ?f j ?i) ?v)"
    unfolding target_group_def by (simp add: length_filter_sort_key)
  also have "\<dots> = p" using s assms by (rule sorted_before_position)
  finally show ?thesis .
qed

lemma check_nth:
  assumes "i < length files"
  shows "check_for_conflicts_in_files files ! i =
           (if collides files i then rename (rank files i) (files ! i) else files ! i)"
proof -
  note F = fold_rename_new_row [OF distinct_all_new_rows, of files files]
  have range: "\<forall>r\<in>set (concat (all_new_rows files)). r < length files"
    using all_new_rows_range by blast
  show ?thesis
  proof (cases "collides files i")
    case True
    then have "i \<in> set (concat (all_new_rows files))" using assms by (simp add: collides_in_row)
    then obtain v where v: "v \<in> set (all_new_rows files)" "i \<in> set v" by auto
    then obtain p where p: "p < length v" "v ! p = i" by (auto simp: in_set_conv_nth)
    from v(1) obtain k l where kl: "v = target_group files k l" by (auto simp: all_new_rows_mem)
    have "rank files i = p" using target_group_position p kl by blast
    moreover have "check_for_conflicts_in_files files ! (v ! p) = rename p (files ! (v ! p))"
      unfolding check_alt using F range v(1) p(1) by blast
    ultimately show ?thesis using True p(2) by simp
  next
    case False
    then have "i \<notin> set (concat (all_new_rows files))" using assms by (simp add: collides_in_row)
    then have "check_for_conflicts_in_files files ! i = files ! i"
      unfolding check_alt using F range by blast
    with False show ?thesis by simp
  qed
qed

lemma check_length: "length (check_for_conflicts_in_files files) = length files"
  unfolding check_alt using fold_rename_new_row_location by blast

lemma check_name:
  "i < length files \<Longrightarrow>
   display_name (check_for_conflicts_in_files files ! i) =
     (if collides files i then suffixed (rank files i) (display_name (files ! i))
      else display_name (files ! i))"
  by (simp add: check_nth rename_frame)

lemma check_clear:
  "map clear_name (check_for_conflicts_in_files files) = map clear_name files"
  by (rule nth_equalityI) (simp_all add: check_length check_nth rename_frame clear_name_def)

lemma check_map:
  assumes "\<And>x. f (clear_name x) = f x"
  shows "map f (check_for_conflicts_in_files files) = map f files"
proof -
  have "map f (check_for_conflicts_in_files files)
      = map (f \<circ> clear_name) (check_for_conflicts_in_files files)"
    using assms by (simp add: comp_def)
  also have "\<dots> = map f (map clear_name (check_for_conflicts_in_files files))" by simp
  also have "\<dots> = map f (map clear_name files)" by (simp only: check_clear)
  also have "\<dots> = map f files" using assms by (simp add: comp_def)
  finally show ?thesis .
qed

text \<open>
  C2: conflict resolution renames exactly the descriptors that share display name and
  target directory with another descriptor of the list. Such a descriptor gets its rank in
  its sub-group (the number of members with an earlier timestamp, or with the same timestamp
  and an earlier place in the list), counted from zero, as a suffix before the file
  extension, and the new name differs from the old one; every other descriptor, in
  particular one that shares its name only with descriptors of other directories, keeps its
  name.
\<close>

theorem conflict_renaming:
  assumes "i < length files"
  shows "(collides files i \<longrightarrow>
            display_name (check_for_conflicts_in_files files ! i)
              = fst (splitext (display_name (files ! i))) @ ''.'' @ str_nat (rank files i)
                  @ snd (splitext (display_name (files ! i))) \<and>
            display_name (check_for_conflicts_in_files files ! i) \<noteq> display_name (files ! i)) \<and>
         (\<not> collides files i \<longrightarrow>
            display_name (check_for_conflicts_in_files files ! i) = display_name (files ! i))"
  using assms suffixed_neq [of "rank files i" "display_name (files ! i)"]
  by (simp add: check_name suffixed_def)

lemma example_notes_facts:
  "collides example_notes 0" "collides example_notes 1" "\<not> collides example_notes 2"
  "rank example_notes 0 = 1" "rank example_notes 1 = 0"
  "display_name (example_notes ! 0) = ''notes.pdf''"
  "display_name (example_notes ! 1) = ''notes.pdf''"
  "display_name (example_notes ! 2) = ''notes.pdf''"
  "time (example_notes ! 1) < time (example_notes ! 0)"
  "splitext ''notes.pdf'' = (''notes'', ''.pdf'')"
  "str_nat 0 = ''0''" "str_nat 1 = ''1''"
  "length example_notes = 3"
  by code_simp+

lemma example_notes_facts_Suc:
  "collides example_notes (Suc 0)" "rank example_notes 0 = Suc 0"
  "rank example_notes (Suc 0) = 0"
  "display_name (example_notes ! Suc 0) = ''notes.pdf''"
  "time (example_notes ! Suc 0) < time (example_notes ! 0)"
  "str_nat (Suc 0) = ''1''"
  by code_simp+

theorem conflict_renaming_witness:
  "collides example_notes 0 \<and> collides example_notes 1 \<and> \<not> collides example_notes 2 \<and>
   time (example_notes ! 1) < time (example_notes ! 0) \<and>
   display_name (check_for_conflicts_in_files example_notes ! 0) = ''notes.1.pdf'' \<and>
   display_name (check_for_conflicts_in_files example_notes ! 1) = ''notes.0.pdf'' \<and>
   display_name (check_for_conflicts_in_files example_notes ! 2) = ''notes.pdf''"
  using conflict_renaming [of 0 example_notes] conflict_renaming [of 1 example_notes]
    conflict_renaming [of 2 example_notes]
  by (simp add: example_notes_facts example_notes_facts_Suc)

text \<open>
  C10: conflict resolution neither adds, removes nor reorders elements, changes no field
  other than the display name, and leaves a descriptor outside the colliding sub-groups
  as it is.
\<close>

theorem conflict_resolution_frame:
  "length (check_for_conflicts_in_files files) = length files \<and>
   map url (check_for_conflicts_in_files files) = map url files \<and>
   map download_url (check_for_conflicts_in_files files) = map download_url files \<and>
   map location (check_for_conflicts_in_files files) = map location files \<and>
   map time (check_for_conflicts_in_files files) = map time files \<and>
   map owner_id (check_for_conflicts_in_files files) = map owner_id files \<and>
   map media_type (check_for_conflicts_in_files files) = map media_type files \<and>
   map size_bytes (check_for_conflicts_in_files files) = map size_bytes files \<and>
   map checksum (check_for_conflicts_in_files files) = map checksum files \<and>
   (\<forall>i<length files. \<not> collides files i \<longrightarrow> check_for_conflicts_in_files files ! i = files ! i)"
  by (simp add: check_length check_nth check_map clear_name_def)

theorem conflict_resolution_frame_witness:
  "\<not> collides example_notes 2 \<and>
   check_for_conflicts_in_files example_notes ! 2 = example_notes ! 2 \<and>
   map time (check_for_conflicts_in_files example_notes) = [2, 1, 1]"
proof -
  have "map time example_notes = [2, 1, 1]" by code_simp
  then show ?thesis
    using conflict_resolution_frame [of example_notes]
    by (simp add: example_notes_facts example_notes_facts_Suc)
qed

text \<open>
  C3 fails on the code: with two descriptors \<open>a.pdf\<close> and one descriptor \<open>a.0.pdf\<close> in one
  directory, the first \<open>a.pdf\<close> becomes \<open>a.0.pdf\<close> and the result holds two descriptors
  with that name in that directory.
\<close>

theorem conflict_left_after_resolution:
  "map (\<lambda>x. (display_name x, location x)) (check_for_conflicts_in_files example_suffixed)
     = [(''a.0.pdf'', ''/c/A''), (''a.1.pdf'', ''/c/A''), (''a.0.pdf'', ''/c/A'')]"
  by code_simp

section \<open>The merged list\<close>

lemma partition_extern_fold:
  "fold (\<lambda>thing (videos, docs).
             if media_type thing = video then (videos @ [thing], docs)
             else (videos, docs @ [thing])) ext (vs, ds)
     = (vs @ filter (\<lambda>t. media_type t = video) ext, ds @ filter (\<lambda>t. media_type t \<noteq> video) ext)"
  by (induction ext arbitrary: vs ds) simp_all

lemma partition_extern_eq:
  "partition_extern ext ds
     = (filter (\<lambda>t. media_type t = video) ext, ds @ filter (\<lambda>t. media_type t \<noteq> video) ext)"
  by (simp add: partition_extern_def partition_extern_fold)

lemma sort_newest_times: "map time (sort_newest xs) = rev (sort (map time xs))"
proof -
  have "sorted (map (\<lambda>x. - time x) (sort_newest xs))" by (simp add: sort_newest_def)
  then have "sorted_wrt (\<lambda>x y. time y \<le> time x) (sort_newest xs)" by (simp add: sorted_map)
  then have "sorted (rev (map time (sort_newest xs)))"
    by (simp add: sorted_wrt_rev sorted_wrt_map flip: rev_map)
  moreover have "mset (rev (map time (sort_newest xs))) = mset (map time xs)"
    by (simp add: sort_newest_def)
  ultimately have "sort (map time xs) = rev (map time (sort_newest xs))"
    by (metis properties_for_sort)
  then show ?thesis by simp
qed

lemma sort_newest_set: "set (sort_newest xs) = set xs" "length (sort_newest xs) = length xs"
  by (simp_all add: sort_newest_def)

lemma download_content_eq:
  "download_content rows assign ext =
     check_for_conflicts_in_files
       (sort_newest (documents_bucket rows assign ext) @ sort_newest (videos_bucket ext))"
  by (simp add: download_content_def partition_extern_eq documents_bucket_def videos_bucket_def)

text \<open>
  C8: the list that \<open>download_content\<close> returns is, up to the display names, the bucket
  of documents, assignments and external results that are not videos, sorted by
  \<open>time\<close> descending, followed by the external results that are videos, sorted by \<open>time\<close>
  descending; everything after the first bucket is a video, and when the course documents
  and assignments are documents (as \<open>document_from_api\<close> builds them) no video is in the
  first bucket.
\<close>

theorem merged_order:
  "map time (download_content rows assign ext)
      = rev (sort (map time (documents_bucket rows assign ext)))
        @ rev (sort (map time (videos_bucket ext))) \<and>
   map clear_name (download_content rows assign ext)
      = map clear_name (sort_newest (documents_bucket rows assign ext))
        @ map clear_name (sort_newest (videos_bucket ext)) \<and>
   map media_type (drop (length (documents_bucket rows assign ext))
        (download_content rows assign ext))
      = replicate (length (videos_bucket ext)) video \<and>
   ((\<forall>d\<in>set (concat rows @ assign). media_type d = document) \<longrightarrow>
      video \<notin> set (map media_type (take (length (documents_bucket rows assign ext))
        (download_content rows assign ext))))"
proof -
  let ?D = "sort_newest (documents_bucket rows assign ext)"
  let ?V = "sort_newest (videos_bucket ext)"
  let ?res = "download_content rows assign ext"
  have t: "map time ?res = map time (?D @ ?V)"
    unfolding download_content_eq by (rule check_map) (simp add: clear_name_def)
  have m: "map media_type ?res = map media_type (?D @ ?V)"
    unfolding download_content_eq by (rule check_map) (simp add: clear_name_def)
  have c: "map clear_name ?res = map clear_name (?D @ ?V)"
    unfolding download_content_eq by (rule check_clear)
  have lenD: "length (map media_type ?D) = length (documents_bucket rows assign ext)"
    by (simp add: sort_newest_set)
  have "map media_type ?V = replicate (length (videos_bucket ext)) video"
    by (rule replicate_eqI) (auto simp: sort_newest_set videos_bucket_def)
  then have 3: "map media_type (drop (length (documents_bucket rows assign ext)) ?res)
      = replicate (length (videos_bucket ext)) video"
    using m lenD by (simp flip: drop_map)
  have 4: "video \<notin> set (map media_type (take (length (documents_bucket rows assign ext)) ?res))"
    if "\<forall>d\<in>set (concat rows @ assign). media_type d = document"
  proof -
    have "map media_type (take (length (documents_bucket rows assign ext)) ?res) = map media_type ?D"
      using m lenD by (simp flip: take_map)
    moreover have "video \<notin> media_type ` set (documents_bucket rows assign ext)"
      using that by (fastforce simp: documents_bucket_def)
    ultimately show ?thesis by (simp add: sort_newest_set)
  qed
  show ?thesis using t c 3 4 by (simp add: sort_newest_times)
qed

theorem merged_order_witness:
  "map media_type (concat [example_documents] @ []) = [document, document, document] \<and>
   map time (download_content [example_documents] [] example_extern) = [300, 200, 100, 999] \<and>
   map media_type (download_content [example_documents] [] example_extern)
     = [document, document, document, video]"
proof -
  have d: "documents_bucket [example_documents] [] example_extern = example_documents"
    by code_simp
  have v: "videos_bucket example_extern = example_extern" by code_simp
  have h: "\<forall>d\<in>set (concat [example_documents] @ []). media_type d = document"
    by (simp add: example_documents_def example_file_def)
  have h': "map media_type (concat [example_documents] @ []) = [document, document, document]"
    by (simp add: example_documents_def example_file_def)
  have s: "rev (sort (map time example_documents)) = [300, 200, 100]"
    "rev (sort (map time example_extern)) = [999]"
    "length example_documents = 3" "length example_extern = 1"
    by (simp_all add: example_documents_def example_extern_def example_file_def)
  have m: "map media_type (download_content [example_documents] [] example_extern)
     = [document, document, document, video]" by code_simp
  from merged_order [of "[example_documents]" "[]" example_extern] h
  have "map time (download_content [example_documents] [] example_extern) = [300, 200, 100, 999]"
    by (simp add: d v s)
  with h' m show ?thesis by simp
qed

section \<open>Resolution and the cache\<close>

lemma pre_resolve_frame:
  "pre_resolve e u s = (d, s1) \<Longrightarrow>
     bad_urls s1 = bad_urls s \<and> pre_containers s1 = pre_containers s"
  by (auto simp: pre_resolve_def Let_def split: if_splits option.splits get_result.splits)

lemma probe_answered_rejected:
  "\<not> accepted con \<Longrightarrow> probe_answered e u c mt fn d con s = (r, s') \<Longrightarrow>
     r = Inr None \<and> bad_urls s' = insert u (bad_urls s) \<and> pre_containers s' = pre_containers s"
  by (auto simp: probe_answered_def Let_def add_bad_url_def split: if_splits)

lemma probe_answered_accepted:
  "accepted con \<Longrightarrow> probe_answered e u c mt fn d con s = (r, s') \<Longrightarrow>
     bad_urls s' = bad_urls s \<and>
     ((\<exists>err. r = Inl err \<and> s' = s) \<or>
      (\<exists>p. r = Inr (Some p) \<and> url p = u \<and> s' = add_pre_container p s \<and>
           download_url p = strip_forcedownload (str_or d u) \<and>
           time_of_response e con = Inr (time p)))"
  by (auto simp: probe_answered_def Let_def add_pre_container_def str_or_def
           split: if_splits option.splits sum.splits)

lemma from_extern_link_uncached:
  assumes "u \<notin> bad_urls s" "pre_containers s u = None"
  shows "from_extern_link e u c mt fn s =
     (if isis_ignored u then (Inr None, add_bad_url u s)
      else case pre_resolve e u s of
             (None, s1) \<Rightarrow> (Inr None, s1)
           | (Some d, s1) \<Rightarrow>
               (case session_get e (str_or d u) of
                  GetRaises \<Rightarrow> (Inr None, s1\<lparr>requests := requests s1 @ [str_or d u]\<rparr>)
                | GetNone \<Rightarrow> (Inr None, add_bad_url u (s1\<lparr>requests := requests s1 @ [str_or d u]\<rparr>))
                | GetResponse con \<Rightarrow>
                    probe_answered e u c mt fn d con (s1\<lparr>requests := requests s1 @ [str_or d u]\<rparr>)))"
  using assms
  by (simp add: from_extern_link_def from_dump_def get_bad_urls_def get_pre_container_by_url_def
        Let_def split: prod.splits option.splits)

lemma from_extern_link_bad:
  "u \<in> bad_urls s \<Longrightarrow> from_extern_link e u c mt fn s = (Inr None, s)"
  by (simp add: from_extern_link_def from_dump_def get_bad_urls_def)

lemma from_extern_link_cached:
  "u \<notin> bad_urls s \<Longrightarrow> pre_containers s u = Some p \<Longrightarrow>
     from_extern_link e u c mt fn s = (Inr (Some p), s)"
  by (simp add: from_extern_link_def from_dump_def get_bad_urls_def get_pre_container_by_url_def)

lemma uncached_cases:
  assumes nc: "u \<notin> bad_urls s" "pre_containers s u = None"
      and run: "from_extern_link e u c mt fn s = (r, s')"
  shows "(isis_ignored u \<and> r = Inr None \<and> bad_urls s' = insert u (bad_urls s) \<and>
            pre_containers s' = pre_containers s)
       \<or> (\<not> isis_ignored u \<and> probe_outcome e u s = None \<and> r = Inr None \<and>
            bad_urls s' = bad_urls s \<and> pre_containers s' = pre_containers s)
       \<or> (\<not> isis_ignored u \<and> probe_outcome e u s = Some GetRaises \<and> r = Inr None \<and>
            bad_urls s' = bad_urls s \<and> pre_containers s' = pre_containers s)
       \<or> (\<not> isis_ignored u \<and> probe_outcome e u s = Some GetNone \<and> r = Inr None \<and>
            bad_urls s' = insert u (bad_urls s) \<and> pre_containers s' = pre_containers s)
       \<or> (\<exists>con. \<not> isis_ignored u \<and> probe_outcome e u s = Some (GetResponse con) \<and>
            \<not> accepted con \<and> r = Inr None \<and>
            bad_urls s' = insert u (bad_urls s) \<and> pre_containers s' = pre_containers s)
       \<or> (\<exists>con. \<not> isis_ignored u \<and> probe_outcome e u s = Some (GetResponse con) \<and>
            accepted con \<and> bad_urls s' = bad_urls s \<and>
            ((\<exists>err. r = Inl err \<and> pre_containers s' = pre_containers s) \<or>
             (\<exists>p d. r = Inr (Some p) \<and> url p = u \<and> fst (pre_resolve e u s) = Some d \<and>
                download_url p = strip_forcedownload (str_or d u) \<and>
                time_of_response e con = Inr (time p) \<and>
                pre_containers s' = (pre_containers s)(u \<mapsto> p))))"
proof (cases "isis_ignored u")
  case True
  with run show ?thesis
    by (auto simp: from_extern_link_uncached [OF nc] add_bad_url_def)
next
  case ign: False
  obtain d0 s1 where pr: "pre_resolve e u s = (d0, s1)" by (cases "pre_resolve e u s")
  note fr = pre_resolve_frame [OF pr]
  show ?thesis
  proof (cases d0)
    case None
    with run ign pr fr show ?thesis
      by (auto simp: from_extern_link_uncached [OF nc] probe_outcome_def)
  next
    case (Some d)
    let ?s2 = "s1\<lparr>requests := requests s1 @ [str_or d u]\<rparr>"
    have po: "probe_outcome e u s = Some (session_get e (str_or d u))"
      using pr Some by (simp add: probe_outcome_def)
    show ?thesis
    proof (cases "session_get e (str_or d u)")
      case GetRaises
      with run ign pr Some fr po show ?thesis
        by (auto simp: from_extern_link_uncached [OF nc])
    next
      case GetNone
      with run ign pr Some fr po show ?thesis
        by (auto simp: from_extern_link_uncached [OF nc] add_bad_url_def)
    next
      case (GetResponse con)
      with run ign pr Some have pa: "probe_answered e u c mt fn d con ?s2 = (r, s')"
        by (simp add: from_extern_link_uncached [OF nc])
      show ?thesis
      proof (cases "accepted con")
        case False
        from probe_answered_rejected [OF False pa] fr ign po GetResponse False
        show ?thesis by auto
      next
        case True
        from probe_answered_accepted [OF True pa]
        have b: "bad_urls s' = bad_urls s" using fr by simp
        from probe_answered_accepted [OF True pa]
        consider (err) err where "r = Inl err" "s' = ?s2"
          | (ok) p where "r = Inr (Some p)" "url p = u" "s' = add_pre_container p ?s2"
              "download_url p = strip_forcedownload (str_or d u)"
              "time_of_response e con = Inr (time p)"
          by blast
        then show ?thesis
        proof cases
          case err
          then have "pre_containers s' = pre_containers s" using fr by simp
          with err b ign po GetResponse True show ?thesis by auto
        next
          case ok
          then have "pre_containers s' = (pre_containers s)(u \<mapsto> p)"
            using fr by (simp add: add_pre_container_def)
          moreover have "fst (pre_resolve e u s) = Some d" using pr Some by simp
          ultimately show ?thesis using ok b ign po GetResponse True by auto
        qed
      qed
    qed
  qed
qed

lemma example_url_facts:
  "\<not> isis_ignored example_url"
  "\<not> contains ''tu-berlin.hosted.exlibrisgroup.com'' example_url"
  "\<not> contains ''https://drive.google.com/'' example_url"
  "\<not> contains ''tubcloud.tu-berlin.de'' example_url"
  "example_url \<noteq> []"
  "basename example_url = ''a.pdf''"
  "\<not> endswith example_url ''?forcedownload=1''"
  "example_url \<notin> known_bad_extern_urls"
  by code_simp+

lemma example_pre_resolve: "pre_resolve e example_url s = (Some [], s)"
  by (simp add: pre_resolve_def example_url_facts)

lemma example_probe_outcome: "probe_outcome e example_url s = Some (session_get e example_url)"
  by (simp add: probe_outcome_def example_pre_resolve str_or_def)

lemma empty_state_uncached:
  "u \<notin> bad_urls empty_state" "pre_containers empty_state u = None"
  by (simp_all add: empty_state_def)

lemma endswith_append: "endswith (u @ t) t"
  by (simp add: endswith_def)

lemma strip_forcedownload_append: "strip_forcedownload (x @ ''?forcedownload=1'') = x"
  using endswith_append [of x "''?forcedownload=1''"] by (simp add: strip_forcedownload_def)

lemma tubcloud_idem: "tubcloud_download_url (tubcloud_download_url u) = tubcloud_download_url u"
  using endswith_append [of u "''/download''"] by (simp add: tubcloud_download_url_def)

lemma tubcloud_ends: "endswith (tubcloud_download_url u) ''/download''"
  using endswith_append [of u "''/download''"] by (simp add: tubcloud_download_url_def)

lemma raising_run:
  "from_extern_link (answering_env GetRaises) example_url example_course extern None empty_state
     = (Inr None, empty_state\<lparr>requests := requests empty_state @ [example_url]\<rparr>)"
  apply (subst from_extern_link_uncached [OF empty_state_uncached])
  apply (simp only: example_url_facts if_False example_pre_resolve prod.case option.case)
  apply (simp add: str_or_def example_url_facts answering_env_def)
  done

lemma unanswered_run:
  "from_extern_link (answering_env GetNone) example_url example_course extern None empty_state
     = (Inr None,
        add_bad_url example_url
          (empty_state\<lparr>requests := requests empty_state @ [example_url]\<rparr>))"
  apply (subst from_extern_link_uncached [OF empty_state_uncached])
  apply (simp only: example_url_facts if_False example_pre_resolve prod.case option.case)
  apply (simp add: str_or_def example_url_facts answering_env_def)
  done

lemma tubcloud_url_facts:
  "\<not> contains ''tu-berlin.hosted.exlibrisgroup.com'' tubcloud_url"
  "\<not> contains ''https://drive.google.com/'' tubcloud_url"
  "contains ''tubcloud.tu-berlin.de'' tubcloud_url"
  "\<not> endswith tubcloud_url ''/download''"
  "tubcloud_url @ ''/download'' = ''https://tubcloud.tu-berlin.de/s/abc/download''"
  by code_simp+

text \<open>
  C6: a URL in the negative cache resolves to no descriptor, and a URL with a positive
  entry that is not in the negative cache resolves to the cached descriptor; in both cases
  the state, with the list of issued requests, stays as it was, and the negative cache
  comes first. A resolution never removes a URL from the negative cache; after a
  resolution that left the URL in the negative cache, or that returned a descriptor, the
  next resolution of the URL gives no descriptor, or that descriptor, without a request.
\<close>

theorem cache_consulted_first:
  "(u \<in> bad_urls s \<longrightarrow> from_extern_link e u c mt fn s = (Inr None, s)) \<and>
   (u \<notin> bad_urls s \<and> pre_containers s u = Some p \<longrightarrow>
      from_extern_link e u c mt fn s = (Inr (Some p), s)) \<and>
   (from_extern_link e u c mt fn s = (r, s') \<longrightarrow>
      bad_urls s \<subseteq> bad_urls s' \<and>
      (u \<in> bad_urls s' \<longrightarrow> from_extern_link e u c2 mt2 fn2 s' = (Inr None, s')) \<and>
      (r = Inr (Some q) \<longrightarrow> from_extern_link e u c2 mt2 fn2 s' = (Inr (Some q), s')))"
proof -
  have third: "bad_urls s \<subseteq> bad_urls s' \<and>
      (r = Inr (Some q) \<longrightarrow> from_extern_link e u c2 mt2 fn2 s' = (Inr (Some q), s'))"
    if run: "from_extern_link e u c mt fn s = (r, s')"
  proof (cases "u \<in> bad_urls s")
    case True
    with run show ?thesis by (simp add: from_extern_link_bad)
  next
    case nb: False
    show ?thesis
    proof (cases "pre_containers s u")
      case (Some p')
      with run nb have "r = Inr (Some p')" "s' = s" by (simp_all add: from_extern_link_cached)
      with nb Some show ?thesis by (simp add: from_extern_link_cached)
    next
      case None
      note U = uncached_cases [OF nb None run]
      have sub: "bad_urls s \<subseteq> bad_urls s'" using U by auto
      have "from_extern_link e u c2 mt2 fn2 s' = (Inr (Some q), s')" if "r = Inr (Some q)"
      proof -
        from U that have "bad_urls s' = bad_urls s" "pre_containers s' u = Some q" by auto
        with nb show ?thesis by (simp add: from_extern_link_cached)
      qed
      with sub show ?thesis by simp
    qed
  qed
  show ?thesis using third by (simp add: from_extern_link_bad from_extern_link_cached)
qed

theorem cache_consulted_first_witness:
  "example_url \<in> bad_urls (add_bad_url example_url empty_state) \<and>
   from_extern_link (answering_env (GetResponse example_response)) example_url example_course
      extern None (add_bad_url example_url empty_state)
     = (Inr None, add_bad_url example_url empty_state)"
  using cache_consulted_first [of example_url "add_bad_url example_url empty_state"
      "answering_env (GetResponse example_response)" example_course extern None]
  by (simp add: add_bad_url_def)

text \<open>
  C5, as the code has it: for a URL that is not cached, resolution marks the URL bad
  exactly when the URL matches the ignore pattern, the content probe yields no response,
  or the response's content type is missing or begins with neither \<open>application/\<close> nor
  \<open>video/\<close>; whenever it marks the URL bad it returns no descriptor and stores none. When
  the content probe raises, it returns no descriptor, stores none and leaves the negative
  cache as it was.
\<close>

theorem marks_bad_cases:
  assumes "u \<notin> bad_urls s" "pre_containers s u = None"
      and "from_extern_link e u c mt fn s = (r, s')"
  shows "(u \<in> bad_urls s' \<longleftrightarrow>
            isis_ignored u \<or> probe_outcome e u s = Some GetNone \<or>
            (\<exists>con. probe_outcome e u s = Some (GetResponse con) \<and> \<not> accepted con)) \<and>
         (u \<in> bad_urls s' \<longrightarrow> r = Inr None \<and> pre_containers s' = pre_containers s) \<and>
         (\<not> isis_ignored u \<and> probe_outcome e u s = Some GetRaises \<longrightarrow>
            r = Inr None \<and> bad_urls s' = bad_urls s \<and> pre_containers s' = pre_containers s)"
  using uncached_cases [OF assms]
  by (elim disjE exE conjE) (simp_all add: assms(1))

theorem marks_bad_cases_witness:
  "example_url \<notin> bad_urls empty_state \<and> pre_containers empty_state example_url = None \<and>
   probe_outcome (answering_env GetNone) example_url empty_state = Some GetNone \<and>
   example_url \<in> bad_urls (snd (from_extern_link (answering_env GetNone) example_url
      example_course extern None empty_state)) \<and>
   fst (from_extern_link (answering_env GetNone) example_url example_course extern None
      empty_state) = Inr None"
proof -
  have "session_get (answering_env GetNone) example_url = GetNone"
    by (simp add: answering_env_def)
  then have p: "probe_outcome (answering_env GetNone) example_url empty_state = Some GetNone"
    by (simp add: example_probe_outcome)
  from marks_bad_cases [OF empty_state_uncached unanswered_run] p
  have b: "example_url \<in> bad_urls (add_bad_url example_url
      (empty_state\<lparr>requests := requests empty_state @ [example_url]\<rparr>))"
    by blast
  show ?thesis using b p by (simp add: unanswered_run empty_state_uncached)
qed

text \<open>
  A probe that raises: the URL is not cached, no descriptor comes back, and the URL is
  not in the negative cache afterwards.
\<close>

theorem network_failure_not_marked:
  "example_url \<notin> bad_urls empty_state \<and> pre_containers empty_state example_url = None \<and>
   session_get (answering_env GetRaises) example_url = GetRaises \<and>
   fst (from_extern_link (answering_env GetRaises) example_url example_course extern None
      empty_state) = Inr None \<and>
   example_url \<notin> bad_urls (snd (from_extern_link (answering_env GetRaises) example_url
      example_course extern None empty_state))"
proof -
  have "session_get (answering_env GetRaises) example_url = GetRaises"
    by (simp add: answering_env_def)
  then show ?thesis by (simp add: raising_run empty_state_uncached)
qed

text \<open>
  C4 fails on the code: the response carries a \<open>Last-Modified\<close> header that parses to
  1445412480, the probe is accepted, and the descriptor's \<open>time\<close> is the current time
  1700000000.
\<close>

theorem last_modified_header_ignored:
  "headers example_response ''Last-Modified'' = Some ''Wed, 21 Oct 2015 07:28:00 GMT'' \<and>
   parsedate_to_datetime (answering_env (GetResponse example_response))
     ''Wed, 21 Oct 2015 07:28:00 GMT'' = Some 1445412480 \<and>
   now (answering_env (GetResponse example_response)) = 1700000000 \<and>
   accepted example_response \<and>
   map_sum id (map_option time)
     (fst (from_extern_link (answering_env (GetResponse example_response)) example_url
        example_course extern None empty_state)) = Inr (Some 1700000000)"
  by (simp add: from_extern_link_uncached empty_state_uncached example_url_facts
        example_pre_resolve str_or_def answering_env_def example_env_def example_response_def
        probe_answered_def accepted_def startswith_def time_of_response_def Let_def
        strip_forcedownload_def)

text \<open>
  C7, as the code has it: a descriptor that external-link resolution builds and stores
  has the download URL of the host-specific part (or the URL itself) with one trailing
  \<open>?forcedownload=1\<close> removed; \<open>document_from_api\<close> removes the suffix from the source URL and
  passes the download URL on as it came; for a tubcloud link the download URL of the
  host-specific part is the link, with \<open>/download\<close> appended only if it does not end in it
  already, so that it always ends in \<open>/download\<close> and the rewrite is idempotent.
\<close>

theorem suffix_normalization:
  "(u \<notin> bad_urls s \<and> pre_containers s u = None \<and>
      from_extern_link e u c mt fn s = (Inr (Some p), s') \<longrightarrow>
      map_option (\<lambda>d. strip_forcedownload (str_or d u)) (fst (pre_resolve e u s))
        = Some (download_url p) \<and>
      pre_containers s' u = Some p) \<and>
   strip_forcedownload (x @ ''?forcedownload=1'') = x \<and>
   (\<not> endswith x ''?forcedownload=1'' \<longrightarrow> strip_forcedownload x = x) \<and>
   url (fst (document_from_api e cfg nm u d0 c lm rl sz s)) = strip_forcedownload u \<and>
   download_url (fst (document_from_api e cfg nm u d0 c lm rl sz s)) = d0 \<and>
   (\<not> contains ''tu-berlin.hosted.exlibrisgroup.com'' u \<and>
    \<not> contains ''https://drive.google.com/'' u \<and> contains ''tubcloud.tu-berlin.de'' u \<longrightarrow>
      pre_resolve e u s = (Some (tubcloud_download_url u), s)) \<and>
   endswith (tubcloud_download_url u) ''/download'' \<and>
   (endswith u ''/download'' \<longrightarrow> tubcloud_download_url u = u) \<and>
   (\<not> endswith u ''/download'' \<longrightarrow> tubcloud_download_url u = u @ ''/download'') \<and>
   tubcloud_download_url (tubcloud_download_url u) = tubcloud_download_url u"
proof -
  have 1: "map_option (\<lambda>d. strip_forcedownload (str_or d u)) (fst (pre_resolve e u s))
        = Some (download_url p) \<and> pre_containers s' u = Some p"
    if "u \<notin> bad_urls s" "pre_containers s u = None"
      "from_extern_link e u c mt fn s = (Inr (Some p), s')"
    using uncached_cases [OF that] by auto
  have 2: "url (fst (document_from_api e cfg nm u d0 c lm rl sz s)) = strip_forcedownload u"
    "download_url (fst (document_from_api e cfg nm u d0 c lm rl sz s)) = d0"
    by (simp_all add: document_from_api_def Let_def strip_forcedownload_def)
  have 3: "pre_resolve e u s = (Some (tubcloud_download_url u), s)"
    if "\<not> contains ''tu-berlin.hosted.exlibrisgroup.com'' u"
      "\<not> contains ''https://drive.google.com/'' u" "contains ''tubcloud.tu-berlin.de'' u"
    using that by (simp add: pre_resolve_def)
  have 4: "\<not> endswith x ''?forcedownload=1'' \<longrightarrow> strip_forcedownload x = x"
    by (simp add: strip_forcedownload_def)
  have 5: "(endswith u ''/download'' \<longrightarrow> tubcloud_download_url u = u) \<and>
     (\<not> endswith u ''/download'' \<longrightarrow> tubcloud_download_url u = u @ ''/download'')"
    by (simp add: tubcloud_download_url_def)
  show ?thesis
    using 1 2 3 4 5 strip_forcedownload_append [of x] tubcloud_ends [of u] tubcloud_idem [of u]
    by blast
qed

theorem suffix_normalization_witness:
  "\<not> contains ''tu-berlin.hosted.exlibrisgroup.com'' tubcloud_url \<and>
   \<not> contains ''https://drive.google.com/'' tubcloud_url \<and>
   contains ''tubcloud.tu-berlin.de'' tubcloud_url \<and>
   \<not> endswith tubcloud_url ''/download'' \<and>
   pre_resolve example_env tubcloud_url empty_state
     = (Some ''https://tubcloud.tu-berlin.de/s/abc/download'', empty_state)"
  using suffix_normalization [of tubcloud_url empty_state example_env]
  by (simp add: tubcloud_url_facts)

text \<open>
  A download URL ending in \<open>?forcedownload=1\<close> comes out of \<open>document_from_api\<close>
  unchanged.
\<close>

theorem document_download_url_kept:
  "endswith forced_url ''?forcedownload=1'' \<and>
   download_url (fst (document_from_api example_env example_config ''a.pdf'' forced_url forced_url
      example_course 0 None 1 empty_state)) = forced_url"
proof -
  have "endswith forced_url ''?forcedownload=1''" by code_simp
  then show ?thesis by (simp add: document_from_api_def Let_def)
qed

end
